theory Spec2Isabelle
  imports Main
begin

section \<open>Thrown values\<close>

text \<open>
  A JavaScript \<open>throw\<close> carries any value. The handlers of this repository only ask
  whether the value is an \<open>Error\<close> and, if so, read its message
  (\<open>error instanceof Error ? error.message : ...\<close>), so a thrown value is either an
  \<open>Error\<close> with its message or something that is not an \<open>Error\<close>.
  A function that may throw returns \<open>thrown + 'a\<close>, with \<open>Inl\<close> for the throw.
\<close>

datatype thrown = Error string | NonError

section \<open>The schema (convex/schema.ts)\<close>

text \<open>
  Document ids are natural numbers handed out by the deployment; every row carries its
  own \<open>_id\<close>. Strings are lists of code units below 256. Optional fields
  (\<open>v.optional\<close>) are \<open>option\<close>s. Field names that two tables share get the
  table's initial as a prefix; the metadata fields carry the prefix \<open>md_\<close>.
\<close>

record user =
  u_id :: nat
  workosId :: string
  email :: string
  name :: string
  organizationId :: "string option"

datatype paper_status = Uploading | Processing | PaperReady | PaperError

record paper_metadata =
  md_authors :: "string list option"
  md_abstract :: "string option"
  md_keywords :: "string list option"

record paper =
  p_id :: nat
  p_userId :: nat
  title :: string
  fileName :: string
  fileStorageId :: nat
  pdfUrl :: "string option"
  p_status :: paper_status
  extractedContent :: "string option"
  metadata :: "paper_metadata option"

datatype demo_status = Generating | Executing | DemoReady | Failed

datatype code_type = Html | React

record execution_results =
  sandboxId :: string
  outputHtml :: "string option"
  screenshot :: "string option"
  logs :: "string list option"
  errors :: "string list option"

record demo =
  d_id :: nat
  paperId :: nat
  d_userId :: nat
  concept :: string
  d_status :: demo_status
  generatedCode :: string
  codeType :: code_type
  executionResults :: "execution_results option"
  demoFileStorageId :: "nat option"

section \<open>The deployment state\<close>

text \<open>
  The three tables in insertion order, the id counter of \<open>ctx.db.insert\<close>, the blobs
  of \<open>ctx.storage\<close>, the functions handed to \<open>ctx.scheduler.runAfter\<close>, and the
  calls that reached the sandbox provider.
\<close>

datatype job = ExtractPdfContent nat | ExecuteInSandbox nat

datatype sandbox_event = Provisioned string | DeleteCalled string

record state =
  users :: "user list"
  papers :: "paper list"
  demos :: "demo list"
  next_id :: nat
  storage :: "nat \<rightharpoonup> string"
  scheduled :: "job list"
  sandbox_log :: "sandbox_event list"

text \<open>The caller's identity as \<open>ctx.auth.getUserIdentity()\<close> returns it.\<close>

record identity =
  subject :: string
  id_email :: "string option"
  id_name :: "string option"
  id_organizationId :: "string option"

subsection \<open>Query helpers of the Convex runtime\<close>

text \<open>
  \<open>.unique()\<close> returns null for no row, the row when there is exactly one, and throws
  when the query matches more than one.
\<close>

definition unique_message :: string where
  "unique_message = ''unique() query returned more than one result''"

fun unique :: "'a list \<Rightarrow> thrown + 'a option" where
  "unique [] = Inr None"
| "unique [x] = Inr (Some x)"
| "unique (x # y # zs) = Inl (Error unique_message)"

definition users_by_workosId :: "state \<Rightarrow> string \<Rightarrow> user list" where
  "users_by_workosId s w = filter (\<lambda>u. workosId u = w) (users s)"

section \<open>convex/users.ts\<close>

definition getUserFromAuth :: "identity option \<Rightarrow> state \<Rightarrow> thrown + nat" where
  "getUserFromAuth auth s =
     (case auth of
        None \<Rightarrow> Inl (Error ''Not authenticated'')
      | Some ident \<Rightarrow>
          (case unique (users_by_workosId s (subject ident)) of
             Inl e \<Rightarrow> Inl e
           | Inr None \<Rightarrow> Inl (Error
               ''User not found in database. Please ensure the user is created via ensureUser mutation first.'')
           | Inr (Some u) \<Rightarrow> Inr (u_id u)))"

definition ensureUser :: "identity option \<Rightarrow> state \<Rightarrow> thrown + (nat \<times> state)" where
  "ensureUser auth s =
     (case auth of
        None \<Rightarrow> Inl (Error ''Not authenticated'')
      | Some ident \<Rightarrow>
          (case unique (users_by_workosId s (subject ident)) of
             Inl e \<Rightarrow> Inl e
           | Inr (Some existingUser) \<Rightarrow> Inr (u_id existingUser, s)
           | Inr None \<Rightarrow>
               (let userId = next_id s;
                    row = \<lparr> u_id = userId,
                            workosId = subject ident,
                            email = (case id_email ident of None \<Rightarrow> '''' | Some e \<Rightarrow> e),
                            name = (case id_name ident of None \<Rightarrow> ''Unknown User'' | Some n \<Rightarrow> n),
                            organizationId = id_organizationId ident \<rparr>
                in Inr (userId, s\<lparr> users := users s @ [row], next_id := Suc userId \<rparr>))))"

definition getCurrentUser :: "identity option \<Rightarrow> state \<Rightarrow> thrown + user option" where
  "getCurrentUser auth s =
     (case auth of
        None \<Rightarrow> Inr None
      | Some ident \<Rightarrow> unique (users_by_workosId s (subject ident)))"

section \<open>String operations of the JavaScript runtime\<close>

definition nl :: string where
  "nl = [CHR 0x0A]"

text \<open>
  \<open>String.prototype.trim\<close> removes white space and line terminators from both ends;
  below 256 these are tab, line feed, vertical tab, form feed, carriage return, space
  and the no-break space.
\<close>

definition is_space :: "char \<Rightarrow> bool" where
  "is_space c \<longleftrightarrow> c \<in> set [CHR 0x09, CHR 0x0A, CHR 0x0B, CHR 0x0C, CHR 0x0D, CHR 0x20, CHR 0xA0]"

definition trim :: "string \<Rightarrow> string" where
  "trim s = rev (dropWhile is_space (rev (dropWhile is_space s)))"

definition startsWith :: "string \<Rightarrow> string \<Rightarrow> bool" where
  "startsWith s p \<longleftrightarrow> take (length p) s = p"

text \<open>\<open>s.split(',')\<close>: the pieces between the commas, one more than there are commas.\<close>

fun split_comma :: "string \<Rightarrow> string list" where
  "split_comma [] = [[]]"
| "split_comma (x # xs) =
     (if x = CHR '','' then [] # split_comma xs
      else (case split_comma xs of
              [] \<Rightarrow> [[x]]
            | w # ws \<Rightarrow> (x # w) # ws))"

text \<open>
  \<open>s.replace(/PAT\n?/g, '')\<close> for a literal, non-empty \<open>PAT\<close>: scanning from the left,
  every occurrence of \<open>PAT\<close> is removed together with one line feed that follows it;
  the scan resumes after the removed text.
\<close>

definition drop_newline :: "string \<Rightarrow> string" where
  "drop_newline s = (case s of [] \<Rightarrow> [] | x # xs \<Rightarrow> if x = CHR 0x0A then xs else s)"

function remove_all :: "string \<Rightarrow> string \<Rightarrow> string" where
  "remove_all pat s =
     (if s = [] then []
      else if pat \<noteq> [] \<and> startsWith s pat
        then remove_all pat (drop_newline (drop (length pat) s))
      else hd s # remove_all pat (tl s))"
  by pat_completeness auto
termination
proof (relation "measure (\<lambda>(pat, s). length s)")
  show "wf (measure (\<lambda>(pat, s). length s))" by simp
next
  fix pat s :: string
  assume "s \<noteq> []" and "pat \<noteq> [] \<and> startsWith s pat"
  then have "length (drop (length pat) s) < length s" by simp
  moreover have "length (drop_newline t) \<le> length t" for t
    by (cases t) (simp_all add: drop_newline_def)
  ultimately have "length (drop_newline (drop (length pat) s)) < length s"
    using le_less_trans by blast
  then show "((pat, drop_newline (drop (length pat) s)), (pat, s)) \<in> measure (\<lambda>(pat, s). length s)"
    by simp
next
  fix pat s :: string
  assume "s \<noteq> []"
  then show "((pat, tl s), (pat, s)) \<in> measure (\<lambda>(pat, s). length s)" by simp
qed

text \<open>
  \<open>text.match(/\{[\s\S]*\}/)\<close>: the match starts at the first opening brace and, the
  star being greedy, ends at the last closing brace after it; there is none when no
  closing brace follows the first opening brace.
\<close>

definition match_braces :: "string \<Rightarrow> string option" where
  "match_braces t =
     (let r = dropWhile (\<lambda>c. c \<noteq> CHR ''{'') t
      in if r \<noteq> [] \<and> CHR ''}'' \<in> set (tl r)
         then Some (rev (dropWhile (\<lambda>c. c \<noteq> CHR ''}'') (rev r)))
         else None)"

text \<open>Decimal digits of a number, as a template literal prints it.\<close>

fun show_nat :: "nat \<Rightarrow> string" where
  "show_nat n =
     (if n < 10 then [char_of (48 + n)]
      else show_nat (n div 10) @ [char_of (48 + n mod 10)])"

section \<open>JSON values\<close>

datatype json =
    JNull
  | JBool bool
  | JNum string
  | JStr string
  | JArr "json list"
  | JObj "(string \<times> json) list"

text \<open>
  Reading a property \<open>x.k\<close> of a parsed value, for the keys this repository reads
  (none of them is a property of a prototype): an object gives the value of the last
  member named \<open>k\<close> or undefined (\<open>None\<close>), null throws a TypeError, and every
  other value gives undefined. The message of a TypeError belongs to the engine; no
  handler here reads it.
\<close>

definition type_error :: thrown where
  "type_error = Error ''TypeError''"

fun js_get :: "json \<Rightarrow> string \<Rightarrow> thrown + json option" where
  "js_get JNull k = Inl type_error"
| "js_get (JObj kvs) k = Inr (map_of (rev kvs) k)"
| "js_get v k = Inr None"

section \<open>A reader of JSON texts\<close>

text \<open>
  A recursive-descent reader of the JSON grammar (ECMA-404), for running the extraction
  on concrete answers: white space is space, tab, line feed and carriage return; a
  number keeps its text; a control character inside a string is refused, as is anything
  after the value. Strings hold code units below 256 only, so an escape \<open>\uXXXX\<close>
  of a larger code unit has no value here and is refused. The fuel of the mutually
  recursive readers is an upper bound on the calls that a text of that length needs.
\<close>

definition is_ws :: "char \<Rightarrow> bool" where
  "is_ws c \<longleftrightarrow> c \<in> set [CHR 0x20, CHR 0x09, CHR 0x0A, CHR 0x0D]"

definition skip_ws :: "string \<Rightarrow> string" where
  "skip_ws = dropWhile is_ws"

definition expect :: "char \<Rightarrow> string \<Rightarrow> string option" where
  "expect c s = (case skip_ws s of [] \<Rightarrow> None | x # xs \<Rightarrow> if x = c then Some xs else None)"

definition is_digit :: "char \<Rightarrow> bool" where
  "is_digit c \<longleftrightarrow> 48 \<le> (of_char c :: nat) \<and> (of_char c :: nat) \<le> 57"

definition hex_value :: "char \<Rightarrow> nat option" where
  "hex_value c =
     (let k = (of_char c :: nat)
      in if 48 \<le> k \<and> k \<le> 57 then Some (k - 48)
         else if 97 \<le> k \<and> k \<le> 102 then Some (k - 87)
         else if 65 \<le> k \<and> k \<le> 70 then Some (k - 55)
         else None)"

definition hex4 :: "string \<Rightarrow> nat option" where
  "hex4 s =
     (case map hex_value s of
        [Some a, Some b, Some c, Some d] \<Rightarrow> Some (((a * 16 + b) * 16 + c) * 16 + d)
      | _ \<Rightarrow> None)"

definition escape :: "char \<Rightarrow> char option" where
  "escape e =
     (if e = CHR 0x22 then Some (CHR 0x22)
      else if e = CHR 0x5C then Some (CHR 0x5C)
      else if e = CHR ''/'' then Some (CHR ''/'')
      else if e = CHR ''b'' then Some (CHR 0x08)
      else if e = CHR ''f'' then Some (CHR 0x0C)
      else if e = CHR ''n'' then Some (CHR 0x0A)
      else if e = CHR ''r'' then Some (CHR 0x0D)
      else if e = CHR ''t'' then Some (CHR 0x09)
      else None)"

definition cons_fst :: "char \<Rightarrow> (string \<times> string) option \<Rightarrow> (string \<times> string) option" where
  "cons_fst c r = (case r of None \<Rightarrow> None | Some (w, rest) \<Rightarrow> Some (c # w, rest))"

fun string_body :: "nat \<Rightarrow> string \<Rightarrow> (string \<times> string) option" where
  "string_body 0 s = None"
| "string_body (Suc n) [] = None"
| "string_body (Suc n) (c # cs) =
     (if c = CHR 0x22 then Some ([], cs)
      else if c = CHR 0x5C then
        (case cs of
           [] \<Rightarrow> None
         | e # r \<Rightarrow>
             if e = CHR ''u'' then
               (case hex4 (take 4 r) of
                  None \<Rightarrow> None
                | Some k \<Rightarrow> if k < 256 then cons_fst (char_of k) (string_body n (drop 4 r)) else None)
             else
               (case escape e of
                  None \<Rightarrow> None
                | Some x \<Rightarrow> cons_fst x (string_body n r)))
      else if (of_char c :: nat) < 32 then None
      else cons_fst c (string_body n cs))"

definition digits1 :: "string \<Rightarrow> bool" where
  "digits1 s \<longleftrightarrow> s \<noteq> [] \<and> list_all is_digit s"

definition valid_exponent :: "string \<Rightarrow> bool" where
  "valid_exponent s =
     (case s of
        [] \<Rightarrow> True
      | e # r \<Rightarrow> (e = CHR ''e'' \<or> e = CHR ''E'') \<and>
          (case r of
             [] \<Rightarrow> False
           | x # xs \<Rightarrow> if x = CHR ''+'' \<or> x = CHR ''-'' then digits1 xs else digits1 r))"

definition valid_fraction :: "string \<Rightarrow> bool" where
  "valid_fraction s =
     (case s of
        [] \<Rightarrow> True
      | d # r \<Rightarrow>
          if d = CHR ''.'' then takeWhile is_digit r \<noteq> [] \<and> valid_exponent (dropWhile is_digit r)
          else valid_exponent s)"

definition valid_number :: "string \<Rightarrow> bool" where
  "valid_number s =
     (let u = (case s of [] \<Rightarrow> [] | x # xs \<Rightarrow> if x = CHR ''-'' then xs else s)
      in case u of
           [] \<Rightarrow> False
         | d # r \<Rightarrow>
             if d = CHR ''0'' then valid_fraction r
             else is_digit d \<and> valid_fraction (dropWhile is_digit r))"

definition number_char :: "char \<Rightarrow> bool" where
  "number_char c \<longleftrightarrow> is_digit c \<or> c \<in> set ''+-.eE''"

definition literal :: "string \<Rightarrow> json \<Rightarrow> string \<Rightarrow> (json \<times> string) option" where
  "literal w v s = (if take (length w) s = w then Some (v, drop (length w) s) else None)"

fun parse_value :: "nat \<Rightarrow> string \<Rightarrow> (json \<times> string) option"
  and parse_elements :: "nat \<Rightarrow> string \<Rightarrow> (json list \<times> string) option"
  and parse_members :: "nat \<Rightarrow> string \<Rightarrow> ((string \<times> json) list \<times> string) option"
where
  "parse_value 0 s = None"
| "parse_value (Suc n) s =
     (case skip_ws s of
        [] \<Rightarrow> None
      | c # cs \<Rightarrow>
          if c = CHR ''{'' then
            (case expect (CHR ''}'') cs of
               Some r \<Rightarrow> Some (JObj [], r)
             | None \<Rightarrow> (case parse_members n cs of None \<Rightarrow> None | Some (kvs, r) \<Rightarrow> Some (JObj kvs, r)))
          else if c = CHR ''['' then
            (case expect (CHR '']'') cs of
               Some r \<Rightarrow> Some (JArr [], r)
             | None \<Rightarrow> (case parse_elements n cs of None \<Rightarrow> None | Some (vs, r) \<Rightarrow> Some (JArr vs, r)))
          else if c = CHR 0x22 then
            (case string_body (Suc (length cs)) cs of None \<Rightarrow> None | Some (w, r) \<Rightarrow> Some (JStr w, r))
          else if c = CHR ''t'' then literal ''true'' (JBool True) (c # cs)
          else if c = CHR ''f'' then literal ''false'' (JBool False) (c # cs)
          else if c = CHR ''n'' then literal ''null'' JNull (c # cs)
          else
            (let w = takeWhile number_char (c # cs)
             in if valid_number w then Some (JNum w, dropWhile number_char (c # cs)) else None))"
| "parse_elements 0 s = None"
| "parse_elements (Suc n) s =
     (case parse_value n s of
        None \<Rightarrow> None
      | Some (v, r) \<Rightarrow>
          (case expect (CHR '','') r of
             Some r' \<Rightarrow> (case parse_elements n r' of None \<Rightarrow> None | Some (vs, r'') \<Rightarrow> Some (v # vs, r''))
           | None \<Rightarrow> (case expect (CHR '']'') r of None \<Rightarrow> None | Some r' \<Rightarrow> Some ([v], r'))))"
| "parse_members 0 s = None"
| "parse_members (Suc n) s =
     (case expect (CHR 0x22) s of
        None \<Rightarrow> None
      | Some cs \<Rightarrow>
          (case string_body (Suc (length cs)) cs of
             None \<Rightarrow> None
           | Some (k, r) \<Rightarrow>
               (case expect (CHR '':'') r of
                  None \<Rightarrow> None
                | Some r1 \<Rightarrow>
                    (case parse_value n r1 of
                       None \<Rightarrow> None
                     | Some (v, r2) \<Rightarrow>
                         (case expect (CHR '','') r2 of
                            Some r3 \<Rightarrow>
                              (case parse_members n r3 of
                                 None \<Rightarrow> None
                               | Some (kvs, r4) \<Rightarrow> Some ((k, v) # kvs, r4))
                          | None \<Rightarrow>
                              (case expect (CHR ''}'') r2 of
                                 None \<Rightarrow> None
                               | Some r3 \<Rightarrow> Some ([(k, v)], r3)))))))"

definition json_parse :: "string \<Rightarrow> json option" where
  "json_parse s =
     (case parse_value (2 * length s + 2) s of
        None \<Rightarrow> None
      | Some (v, r) \<Rightarrow> if skip_ws r = [] then Some v else None)"

section \<open>What lies outside the repository\<close>

text \<open>
  The collaborators are functions of what they are given; a call that fails is a throw.
  \<open>JSON_parse\<close> is \<open>JSON.parse\<close> of the runtime, \<open>None\<close> for its SyntaxError.
  \<open>url_for\<close> is the address \<open>ctx.storage.getUrl\<close> gives for a stored blob.
\<close>

record http_response =
  resp_ok :: bool
  resp_status :: nat
  resp_statusText :: string
  resp_text :: "thrown + string"

record env =
  JSON_parse :: "string \<Rightarrow> json option"
  url_for :: "nat \<Rightarrow> string"
  fetch_bytes :: "string \<Rightarrow> thrown + string"
  analyze :: "string \<Rightarrow> string \<Rightarrow> thrown + string"
  generate :: "string \<Rightarrow> thrown + string"
  daytona_create :: "thrown + string"
  executeCommand :: "string \<Rightarrow> string \<Rightarrow> thrown + unit"
  fetch :: "string \<Rightarrow> thrown + http_response"
  storage_store :: "string \<Rightarrow> thrown + nat"
  sandbox_delete :: "string \<Rightarrow> thrown + unit"

definition storage_getUrl :: "env \<Rightarrow> state \<Rightarrow> nat \<Rightarrow> string option" where
  "storage_getUrl c s sid = (case storage s sid of None \<Rightarrow> None | Some b \<Rightarrow> Some (url_for c sid))"

text \<open>Sequencing of calls that may throw.\<close>

definition and_then :: "thrown + 'a \<Rightarrow> ('a \<Rightarrow> thrown + 'b) \<Rightarrow> thrown + 'b" where
  "and_then r f = (case r of Inl e \<Rightarrow> Inl e | Inr x \<Rightarrow> f x)"

text \<open>
  \<open>ctx.db.patch\<close> throws when the document does not exist, and an argument that its
  validator refuses makes \<open>ctx.runMutation\<close> throw; the texts of both messages belong
  to Convex, and no handler here depends on them.
\<close>

definition patch_missing :: thrown where
  "patch_missing = Error ''Update on nonexistent document''"

definition validation_error :: thrown where
  "validation_error = Error ''ArgumentValidationError''"

section \<open>convex/papers.ts\<close>

record paper_patch =
  pp_status :: "paper_status option"
  pp_extractedContent :: "string option"
  pp_metadata :: "paper_metadata option"
  pp_pdfUrl :: "string option"

definition apply_paper_patch :: "paper_patch \<Rightarrow> paper \<Rightarrow> paper" where
  "apply_paper_patch a p =
     p\<lparr> p_status := (case pp_status a of None \<Rightarrow> p_status p | Some v \<Rightarrow> v),
        extractedContent := (case pp_extractedContent a of None \<Rightarrow> extractedContent p | Some v \<Rightarrow> Some v),
        metadata := (case pp_metadata a of None \<Rightarrow> metadata p | Some v \<Rightarrow> Some v),
        pdfUrl := (case pp_pdfUrl a of None \<Rightarrow> pdfUrl p | Some v \<Rightarrow> Some v) \<rparr>"

definition updatePaper :: "state \<Rightarrow> nat \<Rightarrow> paper_patch \<Rightarrow> thrown + state" where
  "updatePaper s pid a =
     (if \<exists>p \<in> set (papers s). p_id p = pid
      then Inr (s\<lparr> papers := map (\<lambda>p. if p_id p = pid then apply_paper_patch a p else p) (papers s) \<rparr>)
      else Inl patch_missing)"

definition getPaperInternal :: "state \<Rightarrow> nat \<Rightarrow> paper option" where
  "getPaperInternal s pid = find (\<lambda>p. p_id p = pid) (papers s)"

definition extraction_instructions :: string where
  "extraction_instructions =
     ''Analyze this academic paper PDF and extract the following information in a structured format:'' @ nl @
     ''1. Full text content'' @ nl @
     ''2. Paper title'' @ nl @
     ''3. Authors (comma-separated list)'' @ nl @
     ''4. Abstract'' @ nl @
     ''5. Key keywords or topics (comma-separated list)'' @ nl @
     nl @
     ''Format your response as JSON with keys: content, title, authors, abstract, keywords''"

text \<open>
  The inner \<open>try\<close> of \<open>extractPdfContent\<close>: the parsed span when the pattern matches
  and \<open>JSON.parse\<close> accepts it, and \<open>{ content: result.text }\<close> otherwise.
\<close>

definition parse_extracted :: "env \<Rightarrow> string \<Rightarrow> json" where
  "parse_extracted c t =
     (case match_braces t of
        None \<Rightarrow> JObj [(''content'', JStr t)]
      | Some m \<Rightarrow>
          (case JSON_parse c m of
             None \<Rightarrow> JObj [(''content'', JStr t)]
           | Some v \<Rightarrow> v))"

text \<open>\<open>x ?? d\<close>: \<open>d\<close> when \<open>x\<close> is undefined or null.\<close>

definition nullish_or :: "json option \<Rightarrow> json \<Rightarrow> json" where
  "nullish_or x d = (case x of None \<Rightarrow> d | Some JNull \<Rightarrow> d | Some v \<Rightarrow> v)"

text \<open>\<open>x?.split(',').map((a) => a.trim())\<close>: a value that is not a string has no \<open>split\<close>.\<close>

definition comma_list :: "json option \<Rightarrow> thrown + string list option" where
  "comma_list x =
     (case x of
        None \<Rightarrow> Inr None
      | Some JNull \<Rightarrow> Inr None
      | Some (JStr s) \<Rightarrow> Inr (Some (map trim (split_comma s)))
      | Some v \<Rightarrow> Inl type_error)"

text \<open>What the validators \<open>v.string()\<close> and \<open>v.optional(v.string())\<close> accept.\<close>

definition string_arg :: "json \<Rightarrow> thrown + string" where
  "string_arg x = (case x of JStr s \<Rightarrow> Inr s | v \<Rightarrow> Inl validation_error)"

definition optional_string_arg :: "json option \<Rightarrow> thrown + string option" where
  "optional_string_arg x =
     (case x of None \<Rightarrow> Inr None | Some (JStr s) \<Rightarrow> Inr (Some s) | Some v \<Rightarrow> Inl validation_error)"

text \<open>The arguments of the \<open>ready\<close> patch, built from the parsed data.\<close>

definition ready_patch :: "json \<Rightarrow> string \<Rightarrow> string \<Rightarrow> thrown + paper_patch" where
  "ready_patch extractedData t url =
     and_then (js_get extractedData ''content'') (\<lambda>content.
     and_then (js_get extractedData ''authors'') (\<lambda>a.
     and_then (comma_list a) (\<lambda>authors.
     and_then (js_get extractedData ''abstract'') (\<lambda>abstract.
     and_then (js_get extractedData ''keywords'') (\<lambda>k.
     and_then (comma_list k) (\<lambda>keywords.
     and_then (string_arg (nullish_or content (JStr t))) (\<lambda>content'.
     and_then (optional_string_arg abstract) (\<lambda>abstract'.
       Inr \<lparr> pp_status = Some PaperReady,
             pp_extractedContent = Some content',
             pp_metadata = Some \<lparr> md_authors = authors, md_abstract = abstract', md_keywords = keywords \<rparr>,
             pp_pdfUrl = Some url \<rparr>))))))))"

text \<open>The body of the outer \<open>try\<close> of \<open>extractPdfContent\<close>.\<close>

definition extract_body :: "env \<Rightarrow> state \<Rightarrow> nat \<Rightarrow> thrown + state" where
  "extract_body c s pid =
     (case getPaperInternal s pid of
        None \<Rightarrow> Inl (Error ''Paper not found'')
      | Some paper \<Rightarrow>
          (case storage_getUrl c s (fileStorageId paper) of
             None \<Rightarrow> Inl (Error ''PDF file not found in storage'')
           | Some url \<Rightarrow>
               and_then (fetch_bytes c url) (\<lambda>data.
               and_then (analyze c extraction_instructions data) (\<lambda>t.
               and_then (ready_patch (parse_extracted c t) t url) (\<lambda>a.
                 updatePaper s pid a)))))"

definition error_patch :: paper_patch where
  "error_patch = \<lparr> pp_status = Some PaperError, pp_extractedContent = None,
                    pp_metadata = None, pp_pdfUrl = None \<rparr>"

text \<open>
  \<open>extractPdfContent\<close>: the state after the action, with the value it throws when the
  patch in the handler throws too.
\<close>

definition extractPdfContent :: "env \<Rightarrow> state \<Rightarrow> nat \<Rightarrow> (thrown + unit) \<times> state" where
  "extractPdfContent c s pid =
     (case extract_body c s pid of
        Inr s' \<Rightarrow> (Inr (), s')
      | Inl e \<Rightarrow>
          (case updatePaper s pid error_patch of
             Inl e' \<Rightarrow> (Inl e', s)
           | Inr s' \<Rightarrow> (Inr (), s')))"


text \<open>\<open>s.replace(pat, '')\<close> for a literal, non-empty \<open>pat\<close>: the first occurrence goes.\<close>

fun remove_first :: "string \<Rightarrow> string \<Rightarrow> string" where
  "remove_first pat [] = []"
| "remove_first pat (x # xs) =
     (if startsWith (x # xs) pat then drop (length pat) (x # xs)
      else x # remove_first pat xs)"

definition createPaper ::
  "identity option \<Rightarrow> state \<Rightarrow> string \<Rightarrow> nat \<Rightarrow> string option \<Rightarrow> thrown + (nat \<times> state)" where
  "createPaper auth s fname fsid ttl =
     and_then (getUserFromAuth auth s) (\<lambda>userId.
       (let paperId = next_id s;
            row = \<lparr> p_id = paperId, p_userId = userId,
                    title = (case ttl of None \<Rightarrow> remove_first ''.pdf'' fname | Some t \<Rightarrow> t),
                    fileName = fname, fileStorageId = fsid, pdfUrl = None,
                    p_status = Processing, extractedContent = None, metadata = None \<rparr>
        in Inr (paperId,
                s\<lparr> papers := papers s @ [row], next_id := Suc paperId,
                   scheduled := scheduled s @ [ExtractPdfContent paperId] \<rparr>)))"

section \<open>convex/demos.ts\<close>

record demo_patch =
  dp_status :: "demo_status option"
  dp_generatedCode :: "string option"
  dp_executionResults :: "execution_results option"
  dp_demoFileStorageId :: "nat option"

definition apply_demo_patch :: "demo_patch \<Rightarrow> demo \<Rightarrow> demo" where
  "apply_demo_patch a d =
     d\<lparr> d_status := (case dp_status a of None \<Rightarrow> d_status d | Some v \<Rightarrow> v),
        generatedCode := (case dp_generatedCode a of None \<Rightarrow> generatedCode d | Some v \<Rightarrow> v),
        executionResults := (case dp_executionResults a of None \<Rightarrow> executionResults d | Some v \<Rightarrow> Some v),
        demoFileStorageId := (case dp_demoFileStorageId a of None \<Rightarrow> demoFileStorageId d | Some v \<Rightarrow> Some v) \<rparr>"

definition updateDemo :: "state \<Rightarrow> nat \<Rightarrow> demo_patch \<Rightarrow> thrown + state" where
  "updateDemo s did a =
     (if \<exists>d \<in> set (demos s). d_id d = did
      then Inr (s\<lparr> demos := map (\<lambda>d. if d_id d = did then apply_demo_patch a d else d) (demos s) \<rparr>)
      else Inl patch_missing)"

definition createDemo ::
  "state \<Rightarrow> nat \<Rightarrow> nat \<Rightarrow> string \<Rightarrow> demo_status \<Rightarrow> string \<Rightarrow> code_type \<Rightarrow> nat \<times> state" where
  "createDemo s pid uid cpt st code ct =
     (let demoId = next_id s;
          row = \<lparr> d_id = demoId, paperId = pid, d_userId = uid, concept = cpt, d_status = st,
                  generatedCode = code, codeType = ct, executionResults = None,
                  demoFileStorageId = None \<rparr>
      in (demoId, s\<lparr> demos := demos s @ [row], next_id := Suc demoId \<rparr>))"

definition getDemoInternal :: "state \<Rightarrow> nat \<Rightarrow> demo option" where
  "getDemoInternal s did = find (\<lambda>d. d_id d = did) (demos s)"

definition generation_prompt :: "paper \<Rightarrow> string \<Rightarrow> string" where
  "generation_prompt paper cpt =
     ''You are an expert at creating interactive visual demonstrations of academic concepts.'' @ nl @
     nl @
     ''Paper Title: '' @ title paper @ nl @
     ''Paper Content: '' @
       (case extractedContent paper of None \<Rightarrow> ''No content available'' | Some t \<Rightarrow> t) @ nl @
     nl @
     ''Concept to Demonstrate: '' @ cpt @ nl @
     nl @
     ''Generate a complete, self-contained HTML file that visually demonstrates this concept. Requirements:'' @ nl @
     ''1. Include ALL CSS inline in a <style> tag (no external stylesheets)'' @ nl @
     ''2. Include ALL JavaScript inline in a <script> tag (no external dependencies)'' @ nl @
     ''3. Make it interactive and animated where appropriate'' @ nl @
     ''4. Use modern HTML5, CSS3, and vanilla JavaScript'' @ nl @
     ''5. Work without any external dependencies or CDN links'' @ nl @
     ''6. Be responsive and mobile-friendly'' @ nl @
     ''7. Keep total size under 100KB'' @ nl @
     ''8. Use clear visual design with smooth animations'' @ nl @
     ''9. Add explanatory text to help understand the concept'' @ nl @
     nl @
     ''Return ONLY the complete HTML code, no markdown formatting, no explanations, just pure HTML starting with <!DOCTYPE html>.''"

text \<open>
  The code kept from the model's answer: the answer trimmed and, when it starts with a
  fence, without any \<open>```html\<close> and then without any \<open>```\<close>, each with the line
  feed that follows it.
\<close>

definition fence :: string where
  "fence = ''```''"

definition extract_html :: "string \<Rightarrow> string" where
  "extract_html t =
     (let htmlCode = trim t
      in if startsWith htmlCode fence
         then remove_all fence (remove_all (fence @ ''html'') htmlCode)
         else htmlCode)"

text \<open>
  The patch of both \<open>catch\<close> handlers: status \<open>failed\<close>, an empty sandbox id, and
  the message of the caught \<open>Error\<close>, or the handler's own text for any other
  thrown value, as the only element of \<open>errors\<close>.
\<close>

definition failed_results :: "string \<Rightarrow> thrown \<Rightarrow> execution_results" where
  "failed_results unknown e =
     \<lparr> sandboxId = [], outputHtml = None, screenshot = None, logs = None,
       errors = Some [case e of Error m \<Rightarrow> m | NonError \<Rightarrow> unknown] \<rparr>"

definition failed_patch :: "string \<Rightarrow> thrown \<Rightarrow> demo_patch" where
  "failed_patch unknown e =
     \<lparr> dp_status = Some Failed, dp_generatedCode = None,
       dp_executionResults = Some (failed_results unknown e), dp_demoFileStorageId = None \<rparr>"

text \<open>The body of the \<open>try\<close> of \<open>generateDemo\<close>.\<close>

definition generate_body :: "env \<Rightarrow> state \<Rightarrow> paper \<Rightarrow> string \<Rightarrow> nat \<Rightarrow> thrown + state" where
  "generate_body c s paper cpt demoId =
     and_then (generate c (generation_prompt paper cpt)) (\<lambda>t.
     and_then (updateDemo s demoId
                 \<lparr> dp_status = Some Executing, dp_generatedCode = Some (extract_html t),
                   dp_executionResults = None, dp_demoFileStorageId = None \<rparr>) (\<lambda>s'.
       Inr (s'\<lparr> scheduled := scheduled s' @ [ExecuteInSandbox demoId] \<rparr>)))"

definition generateDemo ::
  "env \<Rightarrow> identity option \<Rightarrow> state \<Rightarrow> nat \<Rightarrow> string \<Rightarrow> (thrown + nat) \<times> state" where
  "generateDemo c auth s pid cpt =
     (case getCurrentUser auth s of
        Inl e \<Rightarrow> (Inl e, s)
      | Inr None \<Rightarrow> (Inl (Error ''Not authenticated''), s)
      | Inr (Some user) \<Rightarrow>
          (case getPaperInternal s pid of
             None \<Rightarrow> (Inl (Error ''Paper not found''), s)
           | Some paper \<Rightarrow>
               if p_userId paper \<noteq> u_id user then (Inl (Error ''Unauthorized''), s)
               else
                 (case createDemo s pid (u_id user) cpt Generating [] Html of
                    (demoId, s1) \<Rightarrow>
                      (case generate_body c s1 paper cpt demoId of
                         Inr s2 \<Rightarrow> (Inr demoId, s2)
                       | Inl e \<Rightarrow>
                           (case updateDemo s1 demoId (failed_patch ''Unknown error'' e) of
                              Inl e' \<Rightarrow> (Inl e', s1)
                            | Inr s2 \<Rightarrow> (Inr demoId, s2))))))"


definition listPaperDemos ::
  "env \<Rightarrow> identity option \<Rightarrow> state \<Rightarrow> nat \<Rightarrow> thrown + (demo \<times> string option) list" where
  "listPaperDemos c auth s pid =
     and_then (getUserFromAuth auth s) (\<lambda>userId.
       Inr (map (\<lambda>demo. (demo,
                   (case demoFileStorageId demo of
                      None \<Rightarrow> None
                    | Some f \<Rightarrow> storage_getUrl c s f)))
              (filter (\<lambda>demo. d_userId demo = userId)
                 (rev (filter (\<lambda>demo. paperId demo = pid) (demos s))))))"

section \<open>convex/sandbox.ts\<close>

definition quote :: string where
  "quote = [CHR 0x27]"

definition writeCommand :: "string \<Rightarrow> string" where
  "writeCommand code =
     ''cat > /workspace/demo.html << '' @ quote @ ''EOFHTML'' @ quote @ nl @ code @ nl @ ''EOFHTML''"

definition serverCommand :: string where
  "serverCommand = ''npx -y http-server /workspace -p 8080 --cors -s''"

definition sandboxUrl :: "string \<Rightarrow> string" where
  "sandboxUrl sid = ''https://'' @ sid @ ''-8080.daytona.app''"

definition log_event :: "sandbox_event \<Rightarrow> state \<Rightarrow> state" where
  "log_event ev s = s\<lparr> sandbox_log := sandbox_log s @ [ev] \<rparr>"

text \<open>
  The body of the \<open>try\<close> of \<open>executeInSandbox\<close>, with the state it leaves behind on
  either exit. The settling delay costs time only and is not part of the state; the
  Daytona client is built before the \<open>try\<close> and its construction is taken to succeed.
\<close>

definition sandbox_body :: "env \<Rightarrow> state \<Rightarrow> nat \<Rightarrow> demo \<Rightarrow> (thrown + unit) \<times> state" where
  "sandbox_body c s did demo =
     (case daytona_create c of
        Inl e \<Rightarrow> (Inl e, s)
      | Inr sid \<Rightarrow>
          (let s1 = log_event (Provisioned sid) s in
           case executeCommand c sid (writeCommand (generatedCode demo)) of
             Inl e \<Rightarrow> (Inl e, s1)
           | Inr u \<Rightarrow>
          (case executeCommand c sid serverCommand of
             Inl e \<Rightarrow> (Inl e, s1)
           | Inr u \<Rightarrow>
          (case fetch c (sandboxUrl sid @ ''/demo.html'') of
             Inl e \<Rightarrow> (Inl e, s1)
           | Inr htmlResponse \<Rightarrow>
               if \<not> resp_ok htmlResponse
               then (Inl (Error (''Failed to fetch demo: '' @ show_nat (resp_status htmlResponse)
                                  @ '' '' @ resp_statusText htmlResponse)), s1)
               else
          (case resp_text htmlResponse of
             Inl e \<Rightarrow> (Inl e, s1)
           | Inr renderedHtml \<Rightarrow>
          (case storage_store c renderedHtml of
             Inl e \<Rightarrow> (Inl e, s1)
           | Inr storageId \<Rightarrow>
          (let s2 = s1\<lparr> storage := (storage s1)(storageId \<mapsto> renderedHtml) \<rparr> in
           case updateDemo s2 did
                  \<lparr> dp_status = Some DemoReady, dp_generatedCode = None,
                    dp_executionResults =
                      Some \<lparr> sandboxId = sid, outputHtml = Some renderedHtml, screenshot = None,
                             logs = None, errors = None \<rparr>,
                    dp_demoFileStorageId = Some storageId \<rparr> of
             Inl e \<Rightarrow> (Inl e, s2)
           | Inr s3 \<Rightarrow>
          (let s4 = log_event (DeleteCalled sid) s3 in
           case sandbox_delete c sid of
             Inl e \<Rightarrow> (Inl e, s4)
           | Inr u \<Rightarrow> (Inr (), s4)))))))))"

definition executeInSandbox :: "env \<Rightarrow> state \<Rightarrow> nat \<Rightarrow> (thrown + unit) \<times> state" where
  "executeInSandbox c s did =
     (case getDemoInternal s did of
        None \<Rightarrow> (Inl (Error ''Demo not found''), s)
      | Some demo \<Rightarrow>
          (case sandbox_body c s did demo of
             (Inr u, s') \<Rightarrow> (Inr (), s')
           | (Inl e, s') \<Rightarrow>
               (case updateDemo s' did (failed_patch ''Unknown sandbox execution error'' e) of
                  Inl e' \<Rightarrow> (Inl e', s')
                | Inr s'' \<Rightarrow> (Inl e, s''))))"

text \<open>How many sandboxes were provisioned and how many teardown calls were made.\<close>

definition creates :: "state \<Rightarrow> nat" where
  "creates s = length (filter (\<lambda>ev. case ev of Provisioned i \<Rightarrow> True | DeleteCalled i \<Rightarrow> False) (sandbox_log s))"

definition deletes :: "state \<Rightarrow> nat" where
  "deletes s = length (filter (\<lambda>ev. case ev of Provisioned i \<Rightarrow> False | DeleteCalled i \<Rightarrow> True) (sandbox_log s))"

text \<open>
  What a run of the sandbox for the demo \<open>did\<close> may do to a row: it keeps the id and
  the code, and a row with another id stays as it is. A run keeps the deployment when
  it relates the rows of the demos in this way, one by one, and leaves the users, the
  papers, the id counter and the queue of scheduled functions alone.
\<close>

definition same_code :: "nat \<Rightarrow> demo \<Rightarrow> demo \<Rightarrow> bool" where
  "same_code did d d' \<longleftrightarrow>
     d_id d' = d_id d \<and> generatedCode d' = generatedCode d \<and> (d_id d \<noteq> did \<longrightarrow> d' = d)"

definition keeps :: "nat \<Rightarrow> state \<Rightarrow> state \<Rightarrow> bool" where
  "keeps did s s' \<longleftrightarrow>
     users s' = users s \<and> papers s' = papers s
     \<and> next_id s' = next_id s \<and> scheduled s' = scheduled s
     \<and> list_all2 (same_code did) (demos s) (demos s')"

text \<open>
  The invariant of the demos table: a demo that is executing or ready has code, and a
  queued sandbox run names an id that was handed out and whose rows have code.
\<close>

definition coded :: "state \<Rightarrow> bool" where
  "coded s \<longleftrightarrow>
     (\<forall>d \<in> set (demos s). d_status d = Executing \<or> d_status d = DemoReady \<longrightarrow> generatedCode d \<noteq> [])
     \<and> (\<forall>did. ExecuteInSandbox did \<in> set (scheduled s) \<longrightarrow>
            did < next_id s \<and> (\<forall>d \<in> set (demos s). d_id d = did \<longrightarrow> generatedCode d \<noteq> []))"

section \<open>Runs of the deployment\<close>

text \<open>
  The public functions that write, and the dispatcher: a scheduled function runs when
  it is pending and leaves the queue as it starts. A call that throws inside a mutation
  changes nothing; an action keeps the writes it made before it threw. Each call runs
  to its end before the next one starts.
\<close>

datatype call =
    EnsureUser "identity option"
  | CreatePaper "identity option" string nat "string option"
  | GenerateDemo env "identity option" nat string
  | RunScheduled env job

fun step :: "call \<Rightarrow> state \<Rightarrow> state" where
  "step (EnsureUser auth) s = (case ensureUser auth s of Inl e \<Rightarrow> s | Inr (uid, s') \<Rightarrow> s')"
| "step (CreatePaper auth fname fsid ttl) s =
     (case createPaper auth s fname fsid ttl of Inl e \<Rightarrow> s | Inr (pid, s') \<Rightarrow> s')"
| "step (GenerateDemo c auth pid cpt) s = snd (generateDemo c auth s pid cpt)"
| "step (RunScheduled c j) s =
     (if j \<in> set (scheduled s)
      then (let s0 = s\<lparr> scheduled := remove1 j (scheduled s) \<rparr>
            in case j of
                 ExtractPdfContent pid \<Rightarrow> snd (extractPdfContent c s0 pid)
               | ExecuteInSandbox did \<Rightarrow> snd (executeInSandbox c s0 did))
      else s)"

fun run :: "call list \<Rightarrow> state \<Rightarrow> state" where
  "run [] s = s"
| "run (x # xs) s = run xs (step x s)"

definition empty_state :: state where
  "empty_state = \<lparr> users = [], papers = [], demos = [], next_id = 0, storage = Map.empty,
                     scheduled = [], sandbox_log = [] \<rparr>"

text \<open>Every answer of the generative model leaves some code once trimmed and stripped.\<close>

definition answers_nonblank :: "call \<Rightarrow> bool" where
  "answers_nonblank x =
     (case x of
        GenerateDemo c auth pid cpt \<Rightarrow> \<forall>p t. generate c p = Inr t \<longrightarrow> extract_html t \<noteq> []
      | _ \<Rightarrow> True)"

text \<open>\<open>s.includes(pat)\<close>: \<open>pat\<close> occurs somewhere in \<open>s\<close>.\<close>

fun occurs_in :: "string \<Rightarrow> string \<Rightarrow> bool" where
  "occurs_in pat [] = (pat = [])"
| "occurs_in pat (x # xs) = (startsWith (x # xs) pat \<or> occurs_in pat xs)"

definition sentinel :: string where
  "sentinel = ''<!DOCTYPE html>''"

section \<open>Sample data\<close>

definition alice :: identity where
  "alice = \<lparr> subject = ''user_alice'', id_email = Some ''alice@example.org'',
             id_name = Some ''Alice'', id_organizationId = None \<rparr>"

definition bob :: identity where
  "bob = \<lparr> subject = ''user_bob'', id_email = None, id_name = None,
           id_organizationId = Some ''org_1'' \<rparr>"

text \<open>Collaborators that all succeed: the model answers with fenced markup.\<close>

definition fenced_answer :: string where
  "fenced_answer = fence @ ''html'' @ nl @ sentinel @ ''<p>hi</p>'' @ nl @ fence"

definition sample_env :: env where
  "sample_env =
     \<lparr> JSON_parse = json_parse,
       url_for = (\<lambda>i. ''https://files.example/'' @ show_nat i),
       fetch_bytes = (\<lambda>u. Inr ''%PDF-1.7''),
       analyze = (\<lambda>i d. Inr ''hello world''),
       generate = (\<lambda>p. Inr fenced_answer),
       daytona_create = Inr ''sb-1'',
       executeCommand = (\<lambda>sid cmd. Inr ()),
       fetch = (\<lambda>u. Inr \<lparr> resp_ok = True, resp_status = 200, resp_statusText = ''OK'',
                            resp_text = Inr ''<html>ok</html>'' \<rparr>),
       storage_store = (\<lambda>b. Inr 100),
       sandbox_delete = (\<lambda>sid. Inr ()) \<rparr>"

text \<open>
  Alice and Bob have signed in, and Bob has uploaded \<open>attention.pdf\<close> as blob 7:
  the users are rows 0 and 1, the paper is row 2.
\<close>

definition seeded :: state where
  "seeded =
     run [EnsureUser (Some alice), EnsureUser (Some bob),
          CreatePaper (Some bob) ''attention.pdf'' 7 None]
       (empty_state\<lparr> storage := [7 \<mapsto> ''%PDF-1.7''] \<rparr>)"

text \<open>Bob has then asked for a demo of his paper: row 3, waiting for its sandbox.\<close>

definition with_demo :: state where
  "with_demo = run [GenerateDemo sample_env (Some bob) 2 ''softmax''] seeded"

text \<open>A table in which a paper carries demos of two owners.\<close>

definition mixed :: state where
  "mixed =
     with_demo\<lparr> demos := demos with_demo @
       [\<lparr> d_id = 4, paperId = 2, d_userId = 0, concept = ''attention heads'',
          d_status = Generating, generatedCode = [], codeType = Html,
          executionResults = None, demoFileStorageId = None \<rparr>] \<rparr>"


text \<open>The sandbox serves no page: the probe is answered with 404.\<close>

definition fetch_404 :: env where
  "fetch_404 =
     sample_env\<lparr> fetch := (\<lambda>u. Inr \<lparr> resp_ok = False, resp_status = 404,
                                       resp_statusText = ''Not Found'', resp_text = Inr [] \<rparr>) \<rparr>"

text \<open>The analysis model is unreachable.\<close>

definition analysis_down :: env where
  "analysis_down = sample_env\<lparr> analyze := (\<lambda>i d. Inl (Error ''overloaded'')) \<rparr>"

text \<open>
  Answers of the analysis model that are not JSON texts: prose with braces that enclose
  no JSON, prose around a JSON object, and prose after an object whose \<open>authors\<close> is
  a number.
\<close>

definition dq :: string where
  "dq = [CHR 0x22]"

definition prose_answer :: string where
  "prose_answer = ''see {figure 1} for details''"

definition wrapped_answer :: string where
  "wrapped_answer = ''Here is the JSON: {'' @ dq @ ''content'' @ dq @ '':'' @ dq @ ''abc'' @ dq @ ''}''"

definition number_answer :: string where
  "number_answer = ''{'' @ dq @ ''authors'' @ dq @ '': 5} is all I found''"

definition analysis_prose :: env where
  "analysis_prose = sample_env\<lparr> analyze := (\<lambda>i d. Inr prose_answer) \<rparr>"

definition analysis_wrapped :: env where
  "analysis_wrapped = sample_env\<lparr> analyze := (\<lambda>i d. Inr wrapped_answer) \<rparr>"

definition analysis_number :: env where
  "analysis_number = sample_env\<lparr> analyze := (\<lambda>i d. Inr number_answer) \<rparr>"

text \<open>The generative model is unreachable, or answers with an empty fenced block.\<close>

definition model_down :: env where
  "model_down = sample_env\<lparr> generate := (\<lambda>p. Inl (Error ''overloaded'')) \<rparr>"

definition model_blank :: env where
  "model_blank = sample_env\<lparr> generate := (\<lambda>p. Inr (fence @ ''html'' @ nl @ fence)) \<rparr>"

text \<open>From the empty deployment to a demo that went through its sandbox.\<close>

definition sample_calls :: "call list" where
  "sample_calls =
     [EnsureUser (Some alice), EnsureUser (Some bob),
      CreatePaper (Some bob) ''attention.pdf'' 7 None,
      GenerateDemo sample_env (Some bob) 2 ''softmax'',
      RunScheduled sample_env (ExecuteInSandbox 3)]"

text \<open>The generative model ends its lines with carriage return and line feed.\<close>

definition crlf :: string where
  "crlf = [CHR 0x0D, CHR 0x0A]"

definition crlf_answer :: string where
  "crlf_answer = fence @ ''html'' @ crlf @ sentinel @ ''<p>hi</p>'' @ crlf @ fence"

definition model_crlf :: env where
  "model_crlf = sample_env\<lparr> generate := (\<lambda>p. Inr crlf_answer) \<rparr>"

section \<open>Properties\<close>

lemma unique_Some_iff: "unique xs = Inr (Some x) \<longleftrightarrow> xs = [x]"
  by (cases xs rule: unique.cases) auto

lemma unique_None_iff: "unique xs = Inr None \<longleftrightarrow> xs = []"
  by (cases xs rule: unique.cases) auto

subsection \<open>Owners\<close>

lemma users_by_workosId_append:
  "users_by_workosId (s\<lparr> users := users s @ [u], next_id := n \<rparr>) w =
     users_by_workosId s w @ (if workosId u = w then [u] else [])"
  by (simp add: users_by_workosId_def)

text \<open>
  A call of \<open>ensureUser\<close> that returns an id leaves exactly one row with the
  identity's subject, and a second call right after it finds that row.
\<close>

lemma ensureUser_idempotent:
  assumes "ensureUser auth s = Inr (uid, s')"
  shows "ensureUser auth s' = Inr (uid, s')
       \<and> length (users s') \<le> Suc (length (users s))
       \<and> (\<exists>ident u. auth = Some ident \<and> users_by_workosId s' (subject ident) = [u] \<and> u_id u = uid)"
proof -
  from assms obtain ident where auth: "auth = Some ident"
    by (cases auth) (simp_all add: ensureUser_def)
  show ?thesis
  proof (cases "unique (users_by_workosId s (subject ident))")
    case (Inl e)
    with assms auth show ?thesis by (simp add: ensureUser_def)
  next
    case (Inr r)
    show ?thesis
    proof (cases r)
      case None
      with Inr have empty: "users_by_workosId s (subject ident) = []"
        by (simp add: unique_None_iff)
      define row where "row = \<lparr> u_id = next_id s, workosId = subject ident,
          email = (case id_email ident of None \<Rightarrow> [] | Some e \<Rightarrow> e),
          name = (case id_name ident of None \<Rightarrow> ''Unknown User'' | Some n \<Rightarrow> n),
          organizationId = id_organizationId ident \<rparr>"
      from assms auth Inr None have uid: "uid = next_id s"
        and s': "s' = s\<lparr> users := users s @ [row], next_id := Suc (next_id s) \<rparr>"
        by (auto simp: ensureUser_def Let_def row_def)
      have one: "users_by_workosId s' (subject ident) = [row]"
        unfolding s' users_by_workosId_append using empty by (simp add: row_def)
      then have "ensureUser auth s' = Inr (u_id row, s')"
        by (simp add: ensureUser_def auth)
      with one uid s' auth show ?thesis by (simp add: row_def)
    next
      case (Some u)
      with Inr have one: "users_by_workosId s (subject ident) = [u]"
        by (simp add: unique_Some_iff)
      from assms auth Inr Some have "uid = u_id u" and "s' = s"
        by (simp_all add: ensureUser_def)
      with assms one auth show ?thesis by simp
    qed
  qed
qed

lemma ensureUser_returns:
  assumes "length (users_by_workosId s (subject ident)) \<le> 1"
  shows "\<exists>uid s'. ensureUser (Some ident) s = Inr (uid, s')"
proof (cases "users_by_workosId s (subject ident)")
  case Nil
  then show ?thesis by (simp add: ensureUser_def Let_def)
next
  case (Cons u us)
  with assms have "us = []" by simp
  with Cons show ?thesis by (simp add: ensureUser_def)
qed

text \<open>
  C8. When at most one row carries the subject of an identity, \<open>ensureUser\<close> for that
  identity returns an id, and a second \<open>ensureUser\<close> for the same identity right after
  it returns the same id and leaves the deployment as the first call left it. The first
  call adds at most one row, and afterwards exactly one row carries the subject, the
  one with the returned id.
\<close>

theorem ensureUser_twice:
  assumes "length (users_by_workosId s (subject ident)) \<le> 1"
  shows "\<exists>uid s'. ensureUser (Some ident) s = Inr (uid, s')
           \<and> ensureUser (Some ident) s' = Inr (uid, s')
           \<and> length (users s') \<le> Suc (length (users s))
           \<and> (\<exists>u. users_by_workosId s' (subject ident) = [u] \<and> u_id u = uid)"
proof -
  from ensureUser_returns [OF assms] obtain uid s'
    where r: "ensureUser (Some ident) s = Inr (uid, s')" by blast
  from ensureUser_idempotent [OF r] r show ?thesis by auto
qed

theorem ensureUser_twice_witness:
  "length (users_by_workosId empty_state (subject alice)) = 0
   \<and> ensureUser (Some alice) empty_state = Inr (0, step (EnsureUser (Some alice)) empty_state)
   \<and> ensureUser (Some alice) (step (EnsureUser (Some alice)) empty_state)
       = Inr (0, step (EnsureUser (Some alice)) empty_state)
   \<and> map u_id (users_by_workosId (step (EnsureUser (Some alice)) empty_state) (subject alice)) = [0]"
proof -
  define s1 where "s1 = step (EnsureUser (Some alice)) empty_state"
  have l: "length (users_by_workosId empty_state (subject alice)) = 0"
    by (simp add: users_by_workosId_def empty_state_def)
  then have l': "length (users_by_workosId empty_state (subject alice)) \<le> 1" by simp
  have h: "ensureUser (Some alice) empty_state = Inr (0, s1)"
    unfolding s1_def
    by (simp add: ensureUser_def users_by_workosId_def empty_state_def alice_def)
  from ensureUser_twice [OF l'] obtain uid s'
    where a: "ensureUser (Some alice) empty_state = Inr (uid, s')"
      and b: "ensureUser (Some alice) s' = Inr (uid, s')"
      and c: "\<exists>u. users_by_workosId s' (subject alice) = [u] \<and> u_id u = uid"
    by blast
  from a h have "uid = 0" and "s' = s1" by simp_all
  with b c have "ensureUser (Some alice) s1 = Inr (0, s1)"
    and "map u_id (users_by_workosId s1 (subject alice)) = [0]" by auto
  with l h show ?thesis unfolding s1_def by blast
qed

subsection \<open>Reads\<close>



text \<open>
  C10. For a caller whom \<open>getUserFromAuth\<close> resolves to a user id, \<open>listPaperDemos\<close>
  returns a list, for every paper id, and never throws; every demo in it belongs to the
  caller, and the list is the paper's demos, newest first, without those of other
  users.
\<close>

theorem listPaperDemos_only_own:
  assumes "getUserFromAuth auth s = Inr uid"
  shows "\<exists>ds. listPaperDemos c auth s pid = Inr ds
           \<and> (\<forall>x \<in> set ds. d_userId (fst x) = uid)
           \<and> map fst ds = filter (\<lambda>d. d_userId d = uid)
                             (rev (filter (\<lambda>d. paperId d = pid) (demos s)))"
  using assms by (simp add: listPaperDemos_def and_then_def comp_def)

theorem listPaperDemos_only_own_witness:
  "getUserFromAuth (Some alice) mixed = Inr 0
   \<and> map d_id (filter (\<lambda>d. paperId d = 2) (demos mixed)) = [3, 4]
   \<and> map (\<lambda>x. (d_id (fst x), d_userId (fst x)))
        (case listPaperDemos sample_env (Some alice) mixed 2 of Inl e \<Rightarrow> [] | Inr ds \<Rightarrow> ds)
       = [(4, 0)]"
proof -
  have u: "getUserFromAuth (Some alice) mixed = Inr 0" by code_simp
  have l: "map d_id (filter (\<lambda>d. paperId d = 2) (demos mixed)) = [3, 4]" by code_simp
  have r: "map (\<lambda>x. (d_id (fst x), d_userId (fst x)))
        (case listPaperDemos sample_env (Some alice) mixed 2 of Inl e \<Rightarrow> [] | Inr ds \<Rightarrow> ds)
       = [(4, 0)]" by code_simp
  from listPaperDemos_only_own [OF u, of sample_env 2] u l r show ?thesis by simp
qed

subsection \<open>Authorisation of generateDemo\<close>

text \<open>
  C2. When the caller resolves to a user and the paper exists but belongs to another
  user, \<open>generateDemo\<close> throws \<open>Unauthorized\<close> and the deployment is what it was:
  no demo row is created, no row is changed and nothing is scheduled.
\<close>

theorem generateDemo_unauthorized:
  assumes "getCurrentUser auth s = Inr (Some user)"
    and "getPaperInternal s pid = Some paper"
    and "p_userId paper \<noteq> u_id user"
  shows "generateDemo c auth s pid cpt = (Inl (Error ''Unauthorized''), s)"
  using assms by (simp add: generateDemo_def)

theorem generateDemo_unauthorized_witness:
  "map_option u_id (case getCurrentUser (Some alice) seeded of Inl e \<Rightarrow> None | Inr u \<Rightarrow> u) = Some 0
   \<and> map_option p_userId (getPaperInternal seeded 2) = Some 1
   \<and> generateDemo sample_env (Some alice) seeded 2 ''softmax'' = (Inl (Error ''Unauthorized''), seeded)"
proof -
  have u: "map_option u_id (case getCurrentUser (Some alice) seeded of Inl e \<Rightarrow> None | Inr u \<Rightarrow> u) = Some 0"
    by code_simp
  have p: "map_option p_userId (getPaperInternal seeded 2) = Some 1" by code_simp
  from u obtain user where u': "getCurrentUser (Some alice) seeded = Inr (Some user)" and "u_id user = 0"
    by (auto split: sum.splits)
  moreover from p obtain paper where "getPaperInternal seeded 2 = Some paper" and "p_userId paper = 1"
    by auto
  ultimately have "generateDemo sample_env (Some alice) seeded 2 ''softmax'' = (Inl (Error ''Unauthorized''), seeded)"
    using generateDemo_unauthorized [of "Some alice" seeded user 2 paper sample_env "''softmax''"] by simp
  with u p show ?thesis by simp
qed

subsection \<open>Patches\<close>

lemma find_map_same_id:
  assumes "\<And>x. key (f x) = key x"
  shows "find (\<lambda>x. key x = k) (map (\<lambda>x. if key x = k then f x else x) xs)
         = map_option f (find (\<lambda>x. key x = k) xs)"
  using assms by (induction xs) auto

lemma find_Some_in_set: "find P xs = Some x \<Longrightarrow> x \<in> set xs \<and> P x"
  by (induction xs) (auto split: if_splits)

lemma p_id_apply_paper_patch: "p_id (apply_paper_patch a p) = p_id p"
  by (simp add: apply_paper_patch_def)

lemma d_id_apply_demo_patch: "d_id (apply_demo_patch a d) = d_id d"
  by (simp add: apply_demo_patch_def)

lemma updatePaper_found:
  assumes "getPaperInternal s pid = Some paper"
  shows "updatePaper s pid a =
           Inr (s\<lparr> papers := map (\<lambda>p. if p_id p = pid then apply_paper_patch a p else p) (papers s) \<rparr>)"
proof -
  from assms have "paper \<in> set (papers s) \<and> p_id paper = pid"
    unfolding getPaperInternal_def by (rule find_Some_in_set)
  then show ?thesis by (auto simp: updatePaper_def)
qed

lemma getPaperInternal_patched:
  "getPaperInternal (s\<lparr> papers := map (\<lambda>p. if p_id p = pid then apply_paper_patch a p else p) (papers s) \<rparr>) pid
     = map_option (apply_paper_patch a) (getPaperInternal s pid)"
  by (simp add: getPaperInternal_def find_map_same_id [where key = p_id] p_id_apply_paper_patch)

lemma apply_error_patch: "apply_paper_patch error_patch p = p\<lparr> p_status := PaperError \<rparr>"
  by (simp add: apply_paper_patch_def error_patch_def)

lemma updateDemo_found:
  assumes "getDemoInternal s did = Some demo"
  shows "updateDemo s did a =
           Inr (s\<lparr> demos := map (\<lambda>d. if d_id d = did then apply_demo_patch a d else d) (demos s) \<rparr>)"
proof -
  from assms have "demo \<in> set (demos s) \<and> d_id demo = did"
    unfolding getDemoInternal_def by (rule find_Some_in_set)
  then show ?thesis by (auto simp: updateDemo_def)
qed

lemma getDemoInternal_patched:
  "getDemoInternal (s\<lparr> demos := map (\<lambda>d. if d_id d = did then apply_demo_patch a d else d) (demos s) \<rparr>) did
     = map_option (apply_demo_patch a) (getDemoInternal s did)"
  by (simp add: getDemoInternal_def find_map_same_id [where key = d_id] d_id_apply_demo_patch)

subsection \<open>Failed extraction\<close>

lemma extract_body_causes:
  assumes "getPaperInternal s pid = Some paper"
  shows "storage_getUrl c s (fileStorageId paper) = None
           \<Longrightarrow> extract_body c s pid = Inl (Error ''PDF file not found in storage'')"
    and "storage_getUrl c s (fileStorageId paper) = Some url \<Longrightarrow> fetch_bytes c url = Inl e
           \<Longrightarrow> extract_body c s pid = Inl e"
    and "storage_getUrl c s (fileStorageId paper) = Some url \<Longrightarrow> fetch_bytes c url = Inr data
           \<Longrightarrow> analyze c extraction_instructions data = Inl e
           \<Longrightarrow> extract_body c s pid = Inl e"
  using assms by (simp_all add: extract_body_def and_then_def)

text \<open>
  C6. When the paper exists and anything in the \<open>try\<close> of \<open>extractPdfContent\<close>
  throws (no address for the blob, a failed download, a failed analysis call, or an
  answer whose fields cannot be stored), the action returns normally and changes the
  deployment in one place only: the status of the paper becomes \<open>error\<close>. Every
  other field of the paper, every other row, and the queue of scheduled functions are
  as before, so nothing is retried.
\<close>

theorem extractPdfContent_error_frame:
  assumes "getPaperInternal s pid = Some paper"
    and "extract_body c s pid = Inl e"
  shows "extractPdfContent c s pid =
           (Inr (), s\<lparr> papers := map (\<lambda>p. if p_id p = pid then p\<lparr> p_status := PaperError \<rparr> else p)
                                     (papers s) \<rparr>)
       \<and> getPaperInternal (snd (extractPdfContent c s pid)) pid = Some (paper\<lparr> p_status := PaperError \<rparr>)
       \<and> scheduled (snd (extractPdfContent c s pid)) = scheduled s"
proof -
  have run: "extractPdfContent c s pid =
      (Inr (), s\<lparr> papers := map (\<lambda>p. if p_id p = pid then apply_paper_patch error_patch p else p)
                                (papers s) \<rparr>)"
    using assms by (simp add: extractPdfContent_def updatePaper_found)
  have "getPaperInternal (snd (extractPdfContent c s pid)) pid = Some (paper\<lparr> p_status := PaperError \<rparr>)"
    unfolding run using assms(1) by (simp add: getPaperInternal_patched apply_error_patch)
  with run show ?thesis by (simp add: apply_error_patch)
qed

theorem extractPdfContent_error_frame_witness:
  "map_option p_status (getPaperInternal seeded 2) = Some Processing
   \<and> (case extract_body analysis_down seeded 2 of Inl e \<Rightarrow> Some e | Inr s' \<Rightarrow> None) = Some (Error ''overloaded'')
   \<and> fst (extractPdfContent analysis_down seeded 2) = Inr ()
   \<and> getPaperInternal (snd (extractPdfContent analysis_down seeded 2)) 2
       = map_option (\<lambda>p. p\<lparr> p_status := PaperError \<rparr>) (getPaperInternal seeded 2)
   \<and> scheduled (snd (extractPdfContent analysis_down seeded 2)) = scheduled seeded"
proof -
  have p: "map_option p_status (getPaperInternal seeded 2) = Some Processing" by code_simp
  have b: "(case extract_body analysis_down seeded 2 of Inl e \<Rightarrow> Some e | Inr s' \<Rightarrow> None) = Some (Error ''overloaded'')"
    by code_simp
  from p obtain paper where p': "getPaperInternal seeded 2 = Some paper" by auto
  from b have b': "extract_body analysis_down seeded 2 = Inl (Error ''overloaded'')"
    by (simp split: sum.splits)
  note t = extractPdfContent_error_frame [OF p' b']
  from t have c1: "fst (extractPdfContent analysis_down seeded 2) = Inr ()" by simp
  note c2 = t [THEN conjunct2, THEN conjunct1]
  note c3 = t [THEN conjunct2, THEN conjunct2]
  from p b c1 c2 c3 p' show ?thesis by simp
qed

subsection \<open>The sandbox\<close>

lemma same_code_refl [simp]: "same_code did d d"
  by (simp add: same_code_def)

lemma same_code_patch:
  "dp_generatedCode a = None \<Longrightarrow> same_code did d (if d_id d = did then apply_demo_patch a d else d)"
  by (simp add: same_code_def apply_demo_patch_def)

lemma same_code_trans: "same_code did a b \<Longrightarrow> same_code did b c \<Longrightarrow> same_code did a c"
  by (auto simp: same_code_def)

lemma list_all2_map_self: "(\<And>x. R x (f x)) \<Longrightarrow> list_all2 R xs (map f xs)"
  by (simp add: list_all2_map2 list_all2_same)

lemma keeps_refl [simp]:
  "keeps did s s"
  "keeps did s (log_event ev s)"
  "keeps did s (log_event ev s\<lparr> storage := m \<rparr>)"
  by (simp_all add: keeps_def log_event_def list_all2_same)

lemma keeps_trans: "keeps did s s1 \<Longrightarrow> keeps did s1 s2 \<Longrightarrow> keeps did s s2"
  unfolding keeps_def
  by (auto elim: list_all2_trans [rotated] intro: same_code_trans)

lemma keeps_updateDemo:
  assumes "updateDemo s did a = Inr s'" and "dp_generatedCode a = None"
  shows "keeps did s s'"
proof -
  from assms(1) have "s' = s\<lparr> demos := map (\<lambda>d. if d_id d = did then apply_demo_patch a d else d) (demos s) \<rparr>"
    by (auto simp: updateDemo_def split: if_splits)
  with assms(2) show ?thesis
    by (simp add: keeps_def list_all2_map_self same_code_patch)
qed

lemma keeps_update:
  assumes "updateDemo (log_event ev s\<lparr> storage := m \<rparr>) did a = Inr s3" and "dp_generatedCode a = None"
  shows "keeps did s (log_event ev' s3)"
proof -
  have "keeps did s (log_event ev s\<lparr> storage := m \<rparr>)" by simp
  moreover from assms have "keeps did (log_event ev s\<lparr> storage := m \<rparr>) s3"
    by (rule keeps_updateDemo)
  moreover have "keeps did s3 (log_event ev' s3)" by simp
  ultimately show ?thesis by (blast intro: keeps_trans)
qed

lemma sandbox_body_keeps: "keeps did s (snd (sandbox_body c s did demo))"
  unfolding sandbox_body_def Let_def
  by (simp split: sum.split add: keeps_update)

lemma executeInSandbox_keeps: "keeps did s (snd (executeInSandbox c s did))"
proof (cases "getDemoInternal s did")
  case None
  then show ?thesis by (simp add: executeInSandbox_def)
next
  case (Some demo)
  obtain r s1 where b: "sandbox_body c s did demo = (r, s1)" by (cases "sandbox_body c s did demo")
  with sandbox_body_keeps [of did s c demo] have k: "keeps did s s1" by simp
  show ?thesis
  proof (cases r)
    case (Inr u)
    with Some b k show ?thesis by (simp add: executeInSandbox_def)
  next
    case (Inl e)
    show ?thesis
    proof (cases "updateDemo s1 did (failed_patch ''Unknown sandbox execution error'' e)")
      case (Inl e')
      with Some b k \<open>r = Inl e\<close> show ?thesis by (simp add: executeInSandbox_def)
    next
      case (Inr s2)
      then have "keeps did s1 s2" by (rule keeps_updateDemo) (simp add: failed_patch_def)
      with k have "keeps did s s2" by (rule keeps_trans)
      with Some b Inr \<open>r = Inl e\<close> show ?thesis by (simp add: executeInSandbox_def)
    qed
  qed
qed


lemma same_code_sets:
  assumes "list_all2 (same_code k) xs ys" and "y \<in> set ys"
  shows "\<exists>x \<in> set xs. same_code k x y"
  using assms by (induction rule: list_all2_induct) auto







text \<open>
  C1 at a failing probe. The sandbox is provisioned and the page it serves answers 404:
  one sandbox was created and \<open>delete\<close> was never called when the action ends.
\<close>

theorem executeInSandbox_leaks_sandbox:
  "creates with_demo = 0 \<and> deletes with_demo = 0
   \<and> creates (snd (executeInSandbox fetch_404 with_demo 3)) = 1
   \<and> deletes (snd (executeInSandbox fetch_404 with_demo 3)) = 0"
  by code_simp

subsection \<open>Lenient reading of the analysis answer\<close>

lemma parse_extracted_fallback:
  assumes "match_braces t = None \<or> (\<exists>m. match_braces t = Some m \<and> JSON_parse c m = None)"
  shows "parse_extracted c t = JObj [(''content'', JStr t)]"
  using assms by (auto simp: parse_extracted_def)

lemma ready_patch_fallback:
  "ready_patch (JObj [(''content'', JStr t)]) t url =
     Inr \<lparr> pp_status = Some PaperReady, pp_extractedContent = Some t,
           pp_metadata = Some \<lparr> md_authors = None, md_abstract = None, md_keywords = None \<rparr>,
           pp_pdfUrl = Some url \<rparr>"
  by (simp add: ready_patch_def and_then_def comma_list_def nullish_or_def string_arg_def
        optional_string_arg_def)

text \<open>
  C4, as the reading is written. The answer \<open>Here is the JSON: {"content":"abc"}\<close>
  is no JSON text, yet the pattern finds the object inside it and the paper becomes
  ready with \<open>abc\<close> as content, not with the whole answer.
\<close>

theorem extractPdfContent_reads_embedded_object:
  "json_parse wrapped_answer = None
   \<and> match_braces wrapped_answer = Some (''{'' @ dq @ ''content'' @ dq @ '':'' @ dq @ ''abc'' @ dq @ ''}'')
   \<and> map_option p_status (getPaperInternal (snd (extractPdfContent analysis_wrapped seeded 2)) 2)
       = Some PaperReady
   \<and> Option.bind (getPaperInternal (snd (extractPdfContent analysis_wrapped seeded 2)) 2) extractedContent
       = Some ''abc''
   \<and> Option.bind (getPaperInternal (snd (extractPdfContent analysis_wrapped seeded 2)) 2) extractedContent
       \<noteq> Some wrapped_answer"
  by code_simp

text \<open>
  C4, amended. When the steps before the reading succeed and the pattern finds no
  braces in the answer, or \<open>JSON.parse\<close> refuses what lies between the first opening
  and the last closing brace, \<open>extractPdfContent\<close> returns normally and the paper is
  ready, with the whole answer as content, the address of the blob, and metadata whose
  authors, abstract and keywords are all absent.
\<close>

theorem extractPdfContent_fallback:
  assumes "getPaperInternal s pid = Some paper"
    and "storage_getUrl c s (fileStorageId paper) = Some url"
    and "fetch_bytes c url = Inr data"
    and "analyze c extraction_instructions data = Inr t"
    and "match_braces t = None \<or> (\<exists>m. match_braces t = Some m \<and> JSON_parse c m = None)"
  shows "fst (extractPdfContent c s pid) = Inr ()
       \<and> getPaperInternal (snd (extractPdfContent c s pid)) pid =
           Some (paper\<lparr> p_status := PaperReady, extractedContent := Some t,
                        metadata := Some \<lparr> md_authors = None, md_abstract = None, md_keywords = None \<rparr>,
                        pdfUrl := Some url \<rparr>)"
proof -
  let ?a = "\<lparr> pp_status = Some PaperReady, pp_extractedContent = Some t,
           pp_metadata = Some \<lparr> md_authors = None, md_abstract = None, md_keywords = None \<rparr>,
           pp_pdfUrl = Some url \<rparr>"
  have "extract_body c s pid = updatePaper s pid ?a"
    using assms(1-4)
    by (simp add: extract_body_def and_then_def parse_extracted_fallback [OF assms(5)]
          ready_patch_fallback)
  then have "extractPdfContent c s pid =
      (Inr (), s\<lparr> papers := map (\<lambda>p. if p_id p = pid then apply_paper_patch ?a p else p) (papers s) \<rparr>)"
    by (simp add: extractPdfContent_def updatePaper_found [OF assms(1)])
  then show ?thesis
    using assms(1) by (simp add: getPaperInternal_patched apply_paper_patch_def)
qed

theorem extractPdfContent_fallback_witness:
  "map_option fileStorageId (getPaperInternal seeded 2) = Some 7
   \<and> storage_getUrl sample_env seeded 7 = Some ''https://files.example/7''
   \<and> fetch_bytes sample_env ''https://files.example/7'' = Inr ''%PDF-1.7''
   \<and> analyze sample_env extraction_instructions ''%PDF-1.7'' = Inr ''hello world''
   \<and> match_braces ''hello world'' = None
   \<and> fst (extractPdfContent sample_env seeded 2) = Inr ()
   \<and> getPaperInternal (snd (extractPdfContent sample_env seeded 2)) 2 =
       map_option (\<lambda>p. p\<lparr> p_status := PaperReady, extractedContent := Some ''hello world'',
                        metadata := Some \<lparr> md_authors = None, md_abstract = None, md_keywords = None \<rparr>,
                        pdfUrl := Some ''https://files.example/7'' \<rparr>) (getPaperInternal seeded 2)
   \<and> analyze analysis_prose extraction_instructions ''%PDF-1.7'' = Inr prose_answer
   \<and> match_braces prose_answer = Some ''{figure 1}''
   \<and> JSON_parse analysis_prose ''{figure 1}'' = None
   \<and> getPaperInternal (snd (extractPdfContent analysis_prose seeded 2)) 2 =
       map_option (\<lambda>p. p\<lparr> p_status := PaperReady, extractedContent := Some prose_answer,
                        metadata := Some \<lparr> md_authors = None, md_abstract = None, md_keywords = None \<rparr>,
                        pdfUrl := Some ''https://files.example/7'' \<rparr>) (getPaperInternal seeded 2)"
proof -
  have p: "map_option fileStorageId (getPaperInternal seeded 2) = Some 7" by code_simp
  have u: "storage_getUrl sample_env seeded 7 = Some ''https://files.example/7''" by code_simp
  have u2: "storage_getUrl analysis_prose seeded 7 = Some ''https://files.example/7''" by code_simp
  have f: "fetch_bytes sample_env ''https://files.example/7'' = Inr ''%PDF-1.7''"
    by (simp add: sample_env_def)
  have f2: "fetch_bytes analysis_prose ''https://files.example/7'' = Inr ''%PDF-1.7''"
    by (simp add: analysis_prose_def sample_env_def)
  have a: "analyze sample_env extraction_instructions ''%PDF-1.7'' = Inr ''hello world''"
    by (simp add: sample_env_def)
  have a2: "analyze analysis_prose extraction_instructions ''%PDF-1.7'' = Inr prose_answer"
    by (simp add: analysis_prose_def sample_env_def)
  have m: "match_braces ''hello world'' = None" by code_simp
  have m2: "match_braces prose_answer = Some ''{figure 1}''" by code_simp
  have j2: "JSON_parse analysis_prose ''{figure 1}'' = None" by code_simp
  from p obtain paper where p': "getPaperInternal seeded 2 = Some paper" and fs: "fileStorageId paper = 7"
    by auto
  from u fs have u': "storage_getUrl sample_env seeded (fileStorageId paper) = Some ''https://files.example/7''"
    by simp
  from u2 fs have u2': "storage_getUrl analysis_prose seeded (fileStorageId paper) = Some ''https://files.example/7''"
    by simp
  from m have m': "match_braces ''hello world'' = None
      \<or> (\<exists>m. match_braces ''hello world'' = Some m \<and> JSON_parse sample_env m = None)" by simp
  from m2 j2 have m2': "match_braces prose_answer = None
      \<or> (\<exists>m. match_braces prose_answer = Some m \<and> JSON_parse analysis_prose m = None)" by simp
  note t = extractPdfContent_fallback [OF p' u' f a m']
  note t2 = extractPdfContent_fallback [OF p' u2' f2 a2 m2']
  from p u f a m t p' a2 m2 j2 t2 show ?thesis by simp
qed

text \<open>
  An answer whose object gives a number for \<open>authors\<close> ends in \<open>error\<close>: a number
  has no \<open>split\<close>.
\<close>

lemma extractPdfContent_number_authors:
  "json_parse number_answer = None
   \<and> map_option p_status (getPaperInternal (snd (extractPdfContent analysis_number seeded 2)) 2)
       = Some PaperError"
  by code_simp

subsection \<open>Fences around the generated code\<close>

declare remove_all.simps [simp del]

lemma remove_all_Nil [simp]: "remove_all pat [] = []"
  by (simp add: remove_all.simps)

lemma remove_all_skip:
  "\<not> startsWith (x # xs) pat \<Longrightarrow> remove_all pat (x # xs) = x # remove_all pat xs"
  by (subst remove_all.simps) simp

lemma remove_all_hit:
  "pat \<noteq> [] \<Longrightarrow> startsWith s pat
     \<Longrightarrow> remove_all pat s = remove_all pat (drop_newline (drop (length pat) s))"
  by (subst remove_all.simps) (auto simp: startsWith_def)

lemma startsWith_Cons:
  "startsWith (x # xs) (p # ps) \<longleftrightarrow> x = p \<and> startsWith xs ps"
  by (simp add: startsWith_def)

lemma startsWith_Nil [simp]: "startsWith s []" "startsWith [] (p # ps) = False"
  by (simp_all add: startsWith_def)

lemma remove_all_other_head:
  "pat \<noteq> [] \<Longrightarrow> x \<noteq> hd pat \<Longrightarrow> remove_all pat (x # xs) = x # remove_all pat xs"
  by (cases pat) (simp_all add: remove_all_skip startsWith_Cons)

text \<open>After the removal no two backquotes lead the text unless two led it before.\<close>

lemma remove_all_fence_two:
  assumes "\<not> startsWith t ''``''"
  shows "\<not> startsWith (remove_all fence t) ''``''"
proof (cases t)
  case Nil
  then show ?thesis by simp
next
  case (Cons y u)
  show ?thesis
  proof (cases "y = CHR 0x60")
    case False
    with Cons show ?thesis
      by (simp add: remove_all_other_head fence_def startsWith_Cons)
  next
    case True
    show ?thesis
    proof (cases u)
      case Nil
      with Cons True show ?thesis
        by (simp add: remove_all_skip fence_def startsWith_Cons)
    next
      case (Cons z v)
      with assms \<open>t = y # u\<close> True have z: "z \<noteq> CHR 0x60"
        by (simp add: startsWith_Cons)
      with Cons \<open>t = y # u\<close> True show ?thesis
        by (simp add: remove_all_skip remove_all_other_head fence_def startsWith_Cons)
    qed
  qed
qed

lemma remove_all_fence_clean: "\<not> occurs_in fence (remove_all fence s)"
proof (induction fence s rule: remove_all.induct)
  case (1 s)
  show ?case
  proof (cases "s = []")
    case True
    then show ?thesis by (simp add: fence_def)
  next
    case ne: False
    show ?thesis
    proof (cases "startsWith s fence")
      case True
      with 1(1) ne have "\<not> occurs_in fence (remove_all fence (drop_newline (drop (length fence) s)))"
        by (simp add: fence_def)
      with True show ?thesis by (simp add: remove_all_hit fence_def)
    next
      case False
      from ne obtain x t where s: "s = x # t" by (cases s) auto
      from 1(2) ne False s have ih: "\<not> occurs_in fence (remove_all fence t)" by simp
      have "\<not> startsWith (x # remove_all fence t) fence"
      proof
        assume a: "startsWith (x # remove_all fence t) fence"
        then have x: "x = CHR 0x60" and two: "startsWith (remove_all fence t) ''``''"
          by (simp_all add: fence_def startsWith_Cons)
        from False s x have "\<not> startsWith t ''``''"
          by (simp add: fence_def startsWith_Cons)
        from remove_all_fence_two [OF this] two show False by simp
      qed
      with ih False s show ?thesis by (simp add: remove_all_skip)
    qed
  qed
qed


lemma trim_core:
  assumes "list_all is_space pre" and "list_all is_space post"
    and "core \<noteq> []" and "\<not> is_space (hd core)" and "\<not> is_space (last core)"
  shows "trim (pre @ core @ post) = core"
proof -
  from assms(1) have "dropWhile is_space (pre @ core @ post) = dropWhile is_space (core @ post)"
    by (simp add: dropWhile_append2 list_all_iff)
  also from assms(3,4) have "\<dots> = core @ post" by (cases core) simp_all
  finally have 1: "dropWhile is_space (pre @ core @ post) = core @ post" .
  from assms(2) have "dropWhile is_space (rev post @ rev core) = dropWhile is_space (rev core)"
    by (intro dropWhile_append2) (simp add: list_all_iff)
  also from assms(3,5) have "\<dots> = rev core"
    by (cases core rule: rev_cases) simp_all
  finally show ?thesis by (simp add: trim_def 1)
qed

lemma remove_all_sentinel:
  "hd pat = CHR 0x60 \<Longrightarrow> pat \<noteq> [] \<Longrightarrow> remove_all pat (sentinel @ r) = sentinel @ remove_all pat r"
  by (simp add: sentinel_def remove_all_other_head)

lemma occurs_in_sentinel:
  "occurs_in fence (sentinel @ r) \<longleftrightarrow> occurs_in fence r"
  by (simp add: sentinel_def fence_def startsWith_Cons)

lemma startsWith_append_self [simp]: "startsWith (p @ r) p"
  by (simp add: startsWith_def)

lemma remove_all_absent: "\<not> occurs_in pat s \<Longrightarrow> remove_all pat s = s"
  by (induction s) (simp_all add: remove_all_skip)

text \<open>
  Text that holds no fence holds no \<open>```html\<close> either, also with a closing fence
  behind it: what follows the closing fence is too short.
\<close>

lemma no_html_fence:
  assumes "\<not> occurs_in fence m"
  shows "\<not> occurs_in (fence @ ''html'') (m @ fence)"
  using assms
proof (induction m)
  case Nil
  show ?case by (simp add: fence_def startsWith_Cons)
next
  case (Cons x xs)
  then have ih: "\<not> occurs_in (fence @ ''html'') (xs @ fence)"
    and head: "\<not> startsWith (x # xs) fence" by simp_all
  have "\<not> startsWith ((x # xs) @ fence) (fence @ ''html'')"
  proof (cases xs)
    case Nil
    then show ?thesis by (simp add: fence_def startsWith_Cons)
  next
    case (Cons y ys)
    show ?thesis
    proof (cases ys)
      case Nil
      with Cons show ?thesis by (simp add: fence_def startsWith_Cons)
    next
      case (Cons z zs)
      with \<open>xs = y # ys\<close> head show ?thesis by (auto simp: fence_def startsWith_Cons)
    qed
  qed
  with ih show ?case by simp
qed

text \<open>
  The closing fence goes, and nothing else, when the text before it holds no fence and
  does not end with a backquote.
\<close>

lemma remove_all_closing:
  assumes "\<not> occurs_in fence m" and "m = [] \<or> last m \<noteq> CHR 0x60"
  shows "remove_all fence (m @ fence) = m"
  using assms
proof (induction m)
  case Nil
  have "remove_all fence fence = remove_all fence (drop_newline (drop (length fence) fence))"
    by (rule remove_all_hit) (simp_all add: fence_def startsWith_def)
  then show ?case by (simp add: drop_newline_def)
next
  case (Cons x xs)
  then have nf: "\<not> occurs_in fence xs" and head: "\<not> startsWith (x # xs) fence"
    and lst: "last (x # xs) \<noteq> CHR 0x60" by simp_all
  from lst have "xs = [] \<or> last xs \<noteq> CHR 0x60" by (cases xs) simp_all
  with Cons.IH nf have ih: "remove_all fence (xs @ fence) = xs" by simp
  have "\<not> startsWith ((x # xs) @ fence) fence"
  proof (cases xs)
    case Nil
    with lst show ?thesis by (simp add: fence_def startsWith_Cons)
  next
    case (Cons y ys)
    show ?thesis
    proof (cases ys)
      case Nil
      with Cons lst show ?thesis by (simp add: fence_def startsWith_Cons)
    next
      case (Cons z zs)
      with \<open>xs = y # ys\<close> head show ?thesis by (auto simp: fence_def startsWith_Cons)
    qed
  qed
  then have "remove_all fence ((x # xs) @ fence) = x # remove_all fence (xs @ fence)"
    by (simp add: remove_all_skip)
  with ih show ?case by simp
qed

text \<open>
  An answer that is, white space apart, an opening fence \<open>```html\<close>, at most one line
  feed, markup that begins with the sentinel, and a closing fence: what is kept is the
  markup with its closing fence, stripped by both patterns.
\<close>

lemma extract_html_fenced:
  assumes "list_all is_space pre" and "list_all is_space post"
    and "sep = [] \<or> sep = nl" and "startsWith markup sentinel"
  shows "extract_html (pre @ fence @ ''html'' @ sep @ markup @ fence @ post)
           = remove_all fence (remove_all (fence @ ''html'') (markup @ fence))"
proof -
  from assms(4) obtain r where m: "markup = sentinel @ r"
    by (metis append_take_drop_id startsWith_def)
  let ?core = "fence @ ''html'' @ sep @ markup @ fence"
  have "trim (pre @ ?core @ post) = ?core"
    by (rule trim_core [OF assms(1,2)]) (simp_all add: fence_def is_space_def)
  then have t: "trim (pre @ fence @ ''html'' @ sep @ markup @ fence @ post) = ?core"
    by simp
  have sw: "startsWith ?core fence" by simp
  have "startsWith ?core (fence @ ''html'')"
    using startsWith_append_self [of "fence @ ''html''" "sep @ markup @ fence"] by simp
  then have "remove_all (fence @ ''html'') ?core
      = remove_all (fence @ ''html'') (drop_newline (drop (length (fence @ ''html'')) ?core))"
    by (intro remove_all_hit) (simp_all add: fence_def)
  also have "drop (length (fence @ ''html'')) ?core = sep @ markup @ fence"
    using append_eq_conv_conj [of "fence @ ''html''" "sep @ markup @ fence" ?core] by simp
  also have "drop_newline (sep @ markup @ fence) = markup @ fence"
    using assms(3) by (auto simp: drop_newline_def nl_def m sentinel_def)
  finally have "remove_all (fence @ ''html'') ?core = remove_all (fence @ ''html'') (markup @ fence)" .
  with t sw show ?thesis by (simp add: extract_html_def Let_def)
qed

lemma stripped_markup_props:
  assumes "startsWith markup sentinel"
  shows "startsWith (remove_all fence (remove_all (fence @ ''html'') (markup @ fence))) sentinel"
    and "\<not> occurs_in fence (remove_all fence (remove_all (fence @ ''html'') (markup @ fence)))"
proof -
  from assms obtain r where m: "markup = sentinel @ r"
    by (metis append_take_drop_id startsWith_def)
  have "remove_all fence (remove_all (fence @ ''html'') (markup @ fence))
      = sentinel @ remove_all fence (remove_all (fence @ ''html'') (r @ fence))"
    by (simp add: m remove_all_sentinel fence_def)
  then show "startsWith (remove_all fence (remove_all (fence @ ''html'') (markup @ fence))) sentinel"
    by simp
  show "\<not> occurs_in fence (remove_all fence (remove_all (fence @ ''html'') (markup @ fence)))"
    by (rule remove_all_fence_clean)
qed

lemma stripped_markup_exact:
  assumes "\<not> occurs_in fence markup" and "markup = [] \<or> last markup \<noteq> CHR 0x60"
  shows "remove_all fence (remove_all (fence @ ''html'') (markup @ fence)) = markup"
proof -
  from no_html_fence [OF assms(1)]
  have "remove_all (fence @ ''html'') (markup @ fence) = markup @ fence"
    by (rule remove_all_absent)
  with remove_all_closing [OF assms] show ?thesis by simp
qed


lemma find_snoc_hit: "P y \<Longrightarrow> \<exists>x. find P (xs @ [y]) = Some x"
  by (induction xs) auto

lemma getDemoInternal_scheduled [simp]:
  "getDemoInternal (s\<lparr> scheduled := q \<rparr>) did = getDemoInternal s did"
  by (simp add: getDemoInternal_def)

text \<open>
  A successful generation: the new row, or any row that already had its id, ends in
  status \<open>executing\<close> with the code kept from the answer, and the sandbox run is queued.
\<close>

lemma generateDemo_success:
  assumes "getCurrentUser auth s = Inr (Some user)"
    and "getPaperInternal s pid = Some paper"
    and "p_userId paper = u_id user"
    and "generate c (generation_prompt paper cpt) = Inr t"
  shows "\<exists>s' d. generateDemo c auth s pid cpt = (Inr (next_id s), s')
           \<and> getDemoInternal s' (next_id s) = Some d
           \<and> d_status d = Executing
           \<and> generatedCode d = extract_html t
           \<and> scheduled s' = scheduled s @ [ExecuteInSandbox (next_id s)]"
proof -
  define row where "row = \<lparr> d_id = next_id s, paperId = pid, d_userId = u_id user, concept = cpt,
      d_status = Generating, generatedCode = [], codeType = Html, executionResults = None,
      demoFileStorageId = None \<rparr>"
  define s1 where "s1 = s\<lparr> demos := demos s @ [row], next_id := Suc (next_id s) \<rparr>"
  define a where "a = \<lparr> dp_status = Some Executing, dp_generatedCode = Some (extract_html t),
      dp_executionResults = None, dp_demoFileStorageId = None \<rparr>"
  define s2 where "s2 = s1\<lparr> demos := map (\<lambda>d. if d_id d = next_id s then apply_demo_patch a d else d) (demos s1) \<rparr>"
  have cr: "createDemo s pid (u_id user) cpt Generating [] Html = (next_id s, s1)"
    by (simp add: createDemo_def Let_def row_def s1_def)
  have "\<exists>x. find (\<lambda>d. d_id d = next_id s) (demos s @ [row]) = Some x"
    by (rule find_snoc_hit) (simp add: row_def)
  then obtain x where x: "getDemoInternal s1 (next_id s) = Some x"
    by (auto simp: getDemoInternal_def s1_def)
  have up: "updateDemo s1 (next_id s) a = Inr s2"
    unfolding s2_def by (rule updateDemo_found [OF x])
  have body: "generate_body c s1 paper cpt (next_id s)
      = Inr (s2\<lparr> scheduled := scheduled s2 @ [ExecuteInSandbox (next_id s)] \<rparr>)"
    using assms(4) up by (simp add: generate_body_def and_then_def a_def)
  have run: "generateDemo c auth s pid cpt
      = (Inr (next_id s), s2\<lparr> scheduled := scheduled s2 @ [ExecuteInSandbox (next_id s)] \<rparr>)"
    using assms(1-3) cr body by (simp add: generateDemo_def)
  have "getDemoInternal s2 (next_id s) = Some (apply_demo_patch a x)"
    unfolding s2_def by (simp add: getDemoInternal_patched x)
  moreover have "scheduled s2 = scheduled s" by (simp add: s2_def s1_def)
  ultimately show ?thesis
    using run by (simp add: apply_demo_patch_def a_def)
qed

text \<open>
  C7, as the patterns are written. An answer whose lines end with carriage return and
  line feed is markup wrapped in fences labelled html, yet the stored code begins with
  the carriage return and line feed that followed the label, not with
  \<open><!DOCTYPE html>\<close>.
\<close>

theorem generateDemo_keeps_carriage_return:
  "map_option generatedCode
     (getDemoInternal (snd (generateDemo model_crlf (Some bob) seeded 2 ''softmax'')) 3)
     = Some (crlf @ sentinel @ ''<p>hi</p>'' @ crlf)
   \<and> \<not> startsWith (crlf @ sentinel @ ''<p>hi</p>'' @ crlf) sentinel"
  by code_simp

text \<open>
  C7, amended. When the caller owns the paper and the answer of the model is, white
  space around it apart, an opening fence \<open>```html\<close>, then at once or after a single
  line feed markup that begins with \<open><!DOCTYPE html>\<close>, then a closing fence
  \<open>```\<close>, \<open>generateDemo\<close> returns the id of a demo that is executing and whose stored
  code is the markup with its closing fence, stripped of every \<open>```html\<close> and then of
  every \<open>```\<close>, each with the line feed after it. This code begins with
  \<open><!DOCTYPE html>\<close> and holds no fence; and when the markup itself holds no fence and
  does not end with a backquote, the stored code is the markup, character for
  character.
\<close>

theorem generateDemo_stores_fenced_markup:
  assumes "getCurrentUser auth s = Inr (Some user)"
    and "getPaperInternal s pid = Some paper"
    and "p_userId paper = u_id user"
    and "generate c (generation_prompt paper cpt)
           = Inr (pre @ fence @ ''html'' @ sep @ markup @ fence @ post)"
    and "list_all is_space pre" and "list_all is_space post"
    and "sep = [] \<or> sep = nl"
    and "startsWith markup sentinel"
  shows "\<exists>s' d. generateDemo c auth s pid cpt = (Inr (next_id s), s')
           \<and> getDemoInternal s' (next_id s) = Some d
           \<and> d_status d = Executing
           \<and> generatedCode d = remove_all fence (remove_all (fence @ ''html'') (markup @ fence))
           \<and> startsWith (generatedCode d) sentinel
           \<and> \<not> occurs_in fence (generatedCode d)
           \<and> (\<not> occurs_in fence markup \<and> last markup \<noteq> CHR 0x60 \<longrightarrow> generatedCode d = markup)"
proof -
  let ?t = "pre @ fence @ ''html'' @ sep @ markup @ fence @ post"
  let ?code = "remove_all fence (remove_all (fence @ ''html'') (markup @ fence))"
  from generateDemo_success [OF assms(1-4)] obtain s' d
    where r: "generateDemo c auth s pid cpt = (Inr (next_id s), s')"
      and d: "getDemoInternal s' (next_id s) = Some d"
      and st: "d_status d = Executing"
      and ex: "generatedCode d = extract_html ?t"
    by blast
  have code: "generatedCode d = ?code"
    unfolding ex by (rule extract_html_fenced [OF assms(5-8)])
  have p1: "startsWith (generatedCode d) sentinel" and p2: "\<not> occurs_in fence (generatedCode d)"
    unfolding code by (rule stripped_markup_props [OF assms(8)])+
  have p3: "generatedCode d = markup" if "\<not> occurs_in fence markup" and "last markup \<noteq> CHR 0x60"
    unfolding code using that by (intro stripped_markup_exact) simp_all
  from r d st code p1 p2 p3 show ?thesis by blast
qed

theorem generateDemo_stores_fenced_markup_witness:
  "map_option u_id (case getCurrentUser (Some bob) seeded of Inl e \<Rightarrow> None | Inr u \<Rightarrow> u) = Some 1
   \<and> map_option p_userId (getPaperInternal seeded 2) = Some 1
   \<and> generate sample_env (generation_prompt (the (getPaperInternal seeded 2)) ''softmax'')
       = Inr ([] @ fence @ ''html'' @ nl @ (sentinel @ ''<p>hi</p>'' @ nl) @ fence @ [])
   \<and> startsWith (sentinel @ ''<p>hi</p>'' @ nl) sentinel
   \<and> \<not> occurs_in fence (sentinel @ ''<p>hi</p>'' @ nl)
   \<and> last (sentinel @ ''<p>hi</p>'' @ nl) \<noteq> CHR 0x60
   \<and> fst (generateDemo sample_env (Some bob) seeded 2 ''softmax'') = Inr 3
   \<and> map_option d_status (getDemoInternal (snd (generateDemo sample_env (Some bob) seeded 2 ''softmax'')) 3)
       = Some Executing
   \<and> map_option generatedCode (getDemoInternal (snd (generateDemo sample_env (Some bob) seeded 2 ''softmax'')) 3)
       = Some (sentinel @ ''<p>hi</p>'' @ nl)"
proof -
  let ?m = "sentinel @ ''<p>hi</p>'' @ nl"
  have u: "map_option u_id (case getCurrentUser (Some bob) seeded of Inl e \<Rightarrow> None | Inr u \<Rightarrow> u) = Some 1"
    by code_simp
  have p: "map_option p_userId (getPaperInternal seeded 2) = Some 1" by code_simp
  have n: "next_id seeded = 3" by code_simp
  have g: "generate sample_env (generation_prompt (the (getPaperInternal seeded 2)) ''softmax'')
       = Inr ([] @ fence @ ''html'' @ nl @ ?m @ fence @ [])"
    by (simp add: sample_env_def fenced_answer_def)
  have sw: "startsWith ?m sentinel" by (simp add: startsWith_def)
  have nf: "\<not> occurs_in fence ?m" by code_simp
  have lst: "last ?m \<noteq> CHR 0x60" by (simp add: nl_def)
  from u obtain user where u': "getCurrentUser (Some bob) seeded = Inr (Some user)" and ui: "u_id user = 1"
    by (auto split: sum.splits)
  from p obtain paper where p': "getPaperInternal seeded 2 = Some paper" and pu: "p_userId paper = 1"
    by auto
  from pu ui have own: "p_userId paper = u_id user" by simp
  from g p' have g': "generate sample_env (generation_prompt paper ''softmax'')
       = Inr ([] @ fence @ ''html'' @ nl @ ?m @ fence @ [])" by simp
  have sep: "nl = [] \<or> nl = nl" by simp
  from generateDemo_stores_fenced_markup [OF u' p' own g' _ _ sep sw] obtain s' d
    where r: "generateDemo sample_env (Some bob) seeded 2 ''softmax'' = (Inr (next_id seeded), s')"
      and d: "getDemoInternal s' (next_id seeded) = Some d"
      and st: "d_status d = Executing"
      and ex: "\<not> occurs_in fence ?m \<and> last ?m \<noteq> CHR 0x60 \<longrightarrow> generatedCode d = ?m"
    by auto
  from ex nf lst have "generatedCode d = ?m" by blast
  with r d st n u p g sw nf lst show ?thesis by simp
qed

subsection \<open>Code of demos past generation\<close>

lemma coded_keeps:
  assumes "coded s" and "\<forall>d \<in> set (demos s). d_id d = did \<longrightarrow> generatedCode d \<noteq> []"
    and "keeps did s s'"
  shows "coded s'"
proof -
  from assms(3) have n: "next_id s' = next_id s" and q: "scheduled s' = scheduled s"
    and l: "list_all2 (same_code did) (demos s) (demos s')"
    by (simp_all add: keeps_def)
  have orig: "\<exists>d \<in> set (demos s). same_code did d d'" if "d' \<in> set (demos s')" for d'
    using l that by (rule same_code_sets)
  have code: "generatedCode d' \<noteq> []"
    if "d' \<in> set (demos s')" and "d_status d' = Executing \<or> d_status d' = DemoReady" for d'
  proof -
    from orig [OF that(1)] obtain d where d: "d \<in> set (demos s)" and sc: "same_code did d d'" by blast
    show ?thesis
    proof (cases "d_id d = did")
      case True
      with assms(2) d sc show ?thesis by (simp add: same_code_def)
    next
      case False
      with sc have "d' = d" by (simp add: same_code_def)
      with assms(1) d that(2) show ?thesis by (auto simp: coded_def)
    qed
  qed
  have sched: "j < next_id s' \<and> (\<forall>d' \<in> set (demos s'). d_id d' = j \<longrightarrow> generatedCode d' \<noteq> [])"
    if "ExecuteInSandbox j \<in> set (scheduled s')" for j
  proof -
    from that q assms(1) have a: "j < next_id s"
      and b: "\<forall>d \<in> set (demos s). d_id d = j \<longrightarrow> generatedCode d \<noteq> []"
      by (auto simp: coded_def)
    have "generatedCode d' \<noteq> []" if "d' \<in> set (demos s')" and "d_id d' = j" for d'
    proof -
      from orig [OF that(1)] obtain d where "d \<in> set (demos s)" and "same_code did d d'" by blast
      with b that(2) show ?thesis by (auto simp: same_code_def)
    qed
    with a n show ?thesis by simp
  qed
  from code sched show ?thesis unfolding coded_def by blast
qed

lemma coded_mono:
  assumes "coded s" and "demos s' = demos s" and "next_id s \<le> next_id s'"
    and "\<forall>j. ExecuteInSandbox j \<in> set (scheduled s') \<longrightarrow> ExecuteInSandbox j \<in> set (scheduled s)"
  shows "coded s'"
  using assms unfolding coded_def by (metis less_le_trans)

lemma coded_generated:
  assumes "coded s" and "d_id row = next_id s"
    and id: "\<And>d. d_id (f d) = d_id d"
    and other: "\<And>d. d_id d \<noteq> next_id s \<Longrightarrow> f d = d"
    and new: "\<And>d. d_id d = next_id s \<Longrightarrow> d_status (f d) = Executing \<or> d_status (f d) = DemoReady
                \<Longrightarrow> generatedCode (f d) \<noteq> []"
    and q: "q = scheduled s
            \<or> q = scheduled s @ [ExecuteInSandbox (next_id s)]
              \<and> (\<forall>d. d_id d = next_id s \<longrightarrow> generatedCode (f d) \<noteq> [])"
  shows "coded (s\<lparr> demos := map f (demos s @ [row]), next_id := Suc (next_id s), scheduled := q \<rparr>)"
proof -
  have old: "d \<in> set (demos s)" if "d \<in> set (demos s @ [row])" and "d_id d \<noteq> next_id s" for d
    using that assms(2) by auto
  have code: "generatedCode (f d) \<noteq> []"
    if "d \<in> set (demos s @ [row])" and "d_status (f d) = Executing \<or> d_status (f d) = DemoReady" for d
  proof (cases "d_id d = next_id s")
    case True
    from True that(2) show ?thesis by (rule new)
  next
    case False
    with old [OF that(1)] other [OF False] that(2) assms(1) show ?thesis
      by (auto simp: coded_def)
  qed
  have sched: "j < Suc (next_id s) \<and> (\<forall>d \<in> set (demos s @ [row]). d_id (f d) = j \<longrightarrow> generatedCode (f d) \<noteq> [])"
    if "ExecuteInSandbox j \<in> set q" for j
  proof (cases "ExecuteInSandbox j \<in> set (scheduled s)")
    case True
    with assms(1) have a: "j < next_id s"
      and b: "\<forall>d \<in> set (demos s). d_id d = j \<longrightarrow> generatedCode d \<noteq> []"
      by (auto simp: coded_def)
    have "generatedCode (f d) \<noteq> []" if "d \<in> set (demos s @ [row])" and "d_id (f d) = j" for d
    proof -
      from that(2) a have ne: "d_id d \<noteq> next_id s" by (simp add: id)
      with old [OF that(1)] other [OF ne] b that(2) show ?thesis by (simp add: id)
    qed
    with a show ?thesis by simp
  next
    case False
    with that q have j: "j = next_id s"
      and c: "\<forall>d. d_id d = next_id s \<longrightarrow> generatedCode (f d) \<noteq> []" by auto
    then show ?thesis by (simp add: id)
  qed
  from code sched show ?thesis unfolding coded_def by auto
qed


lemma updatePaper_frame:
  "updatePaper s pid a = Inr s'
     \<Longrightarrow> demos s' = demos s \<and> scheduled s' = scheduled s \<and> next_id s' = next_id s"
  by (auto simp: updatePaper_def split: if_splits)

lemma extract_body_frame_case:
  "case extract_body c s pid of
     Inl e \<Rightarrow> True
   | Inr s' \<Rightarrow> demos s' = demos s \<and> scheduled s' = scheduled s \<and> next_id s' = next_id s"
  unfolding extract_body_def and_then_def
  by (auto dest: updatePaper_frame split: option.split sum.split)

lemma extract_body_frame:
  "extract_body c s pid = Inr s'
     \<Longrightarrow> demos s' = demos s \<and> scheduled s' = scheduled s \<and> next_id s' = next_id s"
  using extract_body_frame_case [where c = c and s = s and pid = pid] by simp

lemma extractPdfContent_frame:
  "demos (snd (extractPdfContent c s pid)) = demos s
   \<and> scheduled (snd (extractPdfContent c s pid)) = scheduled s
   \<and> next_id (snd (extractPdfContent c s pid)) = next_id s"
proof (cases "extract_body c s pid")
  case (Inr s')
  with extract_body_frame [OF Inr] show ?thesis by (simp add: extractPdfContent_def)
next
  case (Inl e)
  show ?thesis
  proof (cases "updatePaper s pid error_patch")
    case (Inl e')
    with \<open>extract_body c s pid = Inl e\<close> show ?thesis by (simp add: extractPdfContent_def)
  next
    case (Inr s')
    with updatePaper_frame [OF Inr] \<open>extract_body c s pid = Inl e\<close> show ?thesis
      by (simp add: extractPdfContent_def)
  qed
qed

lemma coded_generateDemo:
  assumes "coded s" and nb: "\<forall>p t. generate c p = Inr t \<longrightarrow> extract_html t \<noteq> []"
  shows "coded (snd (generateDemo c auth s pid cpt))"
proof (cases "getCurrentUser auth s")
  case (Inl e)
  with assms(1) show ?thesis by (simp add: generateDemo_def)
next
  case (Inr uo)
  show ?thesis
  proof (cases uo)
    case None
    with Inr assms(1) show ?thesis by (simp add: generateDemo_def)
  next
    case (Some user)
    show ?thesis
    proof (cases "getPaperInternal s pid")
      case None
      with Inr Some assms(1) show ?thesis by (simp add: generateDemo_def)
    next
      case (Some paper)
      show ?thesis
      proof (cases "p_userId paper = u_id user")
        case False
        with Inr \<open>uo = Some user\<close> Some assms(1) show ?thesis by (simp add: generateDemo_def)
      next
        case True
        define n where "n = next_id s"
        define row where "row = \<lparr> d_id = n, paperId = pid, d_userId = u_id user, concept = cpt,
            d_status = Generating, generatedCode = [], codeType = Html, executionResults = None,
            demoFileStorageId = None \<rparr>"
        define s1 where "s1 = s\<lparr> demos := demos s @ [row], next_id := Suc n \<rparr>"
        have cr: "createDemo s pid (u_id user) cpt Generating [] Html = (n, s1)"
          by (simp add: createDemo_def Let_def row_def s1_def n_def)
        have hit: "\<exists>d \<in> set (demos s1). d_id d = n"
          by (simp add: s1_def row_def)
        have upd: "updateDemo s1 n a
            = Inr (s1\<lparr> demos := map (\<lambda>d. if d_id d = n then apply_demo_patch a d else d) (demos s1) \<rparr>)" for a
          using hit by (simp add: updateDemo_def)
        show ?thesis
        proof (cases "generate c (generation_prompt paper cpt)")
          case (Inl e)
          let ?a = "failed_patch ''Unknown error'' e"
          let ?f = "\<lambda>d. if d_id d = n then apply_demo_patch ?a d else d"
          from Inl have "generate_body c s1 paper cpt n = Inl e"
            by (simp add: generate_body_def and_then_def)
          with Inr \<open>uo = Some user\<close> Some True cr
          have "snd (generateDemo c auth s pid cpt) = s1\<lparr> demos := map ?f (demos s1) \<rparr>"
            by (simp add: generateDemo_def upd)
          also have "\<dots> = s\<lparr> demos := map ?f (demos s @ [row]), next_id := Suc (next_id s),
                               scheduled := scheduled s \<rparr>"
            by (simp add: s1_def n_def)
          finally have eq: "snd (generateDemo c auth s pid cpt)
              = s\<lparr> demos := map ?f (demos s @ [row]), next_id := Suc (next_id s),
                    scheduled := scheduled s \<rparr>" .
          show ?thesis unfolding eq
            by (rule coded_generated [OF assms(1)])
               (simp_all add: row_def n_def apply_demo_patch_def failed_patch_def)
        next
          case (Inr t)
          let ?a = "\<lparr> dp_status = Some Executing, dp_generatedCode = Some (extract_html t),
                      dp_executionResults = None, dp_demoFileStorageId = None \<rparr>"
          let ?f = "\<lambda>d. if d_id d = n then apply_demo_patch ?a d else d"
          from nb Inr have t: "extract_html t \<noteq> []" by blast
          from Inr have "generate_body c s1 paper cpt n
              = Inr (s1\<lparr> demos := map ?f (demos s1),
                          scheduled := scheduled s1 @ [ExecuteInSandbox n] \<rparr>)"
            by (simp add: generate_body_def and_then_def upd)
          with \<open>getCurrentUser auth s = Inr uo\<close> \<open>uo = Some user\<close> Some True cr
          have "snd (generateDemo c auth s pid cpt)
              = s1\<lparr> demos := map ?f (demos s1), scheduled := scheduled s1 @ [ExecuteInSandbox n] \<rparr>"
            by (simp add: generateDemo_def)
          also have "\<dots> = s\<lparr> demos := map ?f (demos s @ [row]), next_id := Suc (next_id s),
                               scheduled := scheduled s @ [ExecuteInSandbox (next_id s)] \<rparr>"
            by (simp add: s1_def n_def)
          finally have eq: "snd (generateDemo c auth s pid cpt)
              = s\<lparr> demos := map ?f (demos s @ [row]), next_id := Suc (next_id s),
                    scheduled := scheduled s @ [ExecuteInSandbox (next_id s)] \<rparr>" .
          show ?thesis unfolding eq
            by (rule coded_generated [OF assms(1)])
               (simp_all add: row_def n_def apply_demo_patch_def t)
        qed
      qed
    qed
  qed
qed

lemma ensureUser_frame_case:
  "case ensureUser auth s of
     Inl e \<Rightarrow> True
   | Inr (uid, s') \<Rightarrow> demos s' = demos s \<and> scheduled s' = scheduled s \<and> next_id s \<le> next_id s'"
  unfolding ensureUser_def Let_def
  by (simp split: option.split sum.split)

lemma createPaper_frame_case:
  "case createPaper auth s fname fsid ttl of
     Inl e \<Rightarrow> True
   | Inr (pid, s') \<Rightarrow> demos s' = demos s \<and> next_id s \<le> next_id s'
       \<and> scheduled s' = scheduled s @ [ExtractPdfContent pid]"
  unfolding createPaper_def and_then_def Let_def
  by (simp split: sum.split)

lemma coded_step:
  assumes "coded s" and "answers_nonblank x"
  shows "coded (step x s)"
proof (cases x)
  case (EnsureUser auth)
  have "coded (case ensureUser auth s of Inl e \<Rightarrow> s | Inr (uid, s') \<Rightarrow> s')"
  proof (cases "ensureUser auth s")
    case (Inl e)
    with assms(1) show ?thesis by simp
  next
    case (Inr r)
    obtain uid s' where r: "r = (uid, s')" by (cases r)
    from Inr r ensureUser_frame_case [where auth = auth and s = s]
    have "demos s' = demos s \<and> scheduled s' = scheduled s \<and> next_id s \<le> next_id s'"
      by simp
    with assms(1) have "coded s'" by (auto intro: coded_mono [of s s'])
    with Inr r show ?thesis by simp
  qed
  with EnsureUser show ?thesis by simp
next
  case (CreatePaper auth fname fsid ttl)
  have "coded (case createPaper auth s fname fsid ttl of Inl e \<Rightarrow> s | Inr (pid, s') \<Rightarrow> s')"
  proof (cases "createPaper auth s fname fsid ttl")
    case (Inl e)
    with assms(1) show ?thesis by simp
  next
    case (Inr r)
    obtain pid s' where r: "r = (pid, s')" by (cases r)
    from Inr r createPaper_frame_case [where auth = auth and s = s and fname = fname and fsid = fsid and ttl = ttl]
    have "demos s' = demos s \<and> next_id s \<le> next_id s'
        \<and> scheduled s' = scheduled s @ [ExtractPdfContent pid]"
      by simp
    with assms(1) have "coded s'" by (auto intro: coded_mono [of s s'])
    with Inr r show ?thesis by simp
  qed
  with CreatePaper show ?thesis by simp
next
  case (GenerateDemo c auth pid cpt)
  with assms(2) have "\<forall>p t. generate c p = Inr t \<longrightarrow> extract_html t \<noteq> []"
    by (simp add: answers_nonblank_def)
  with assms(1) have "coded (snd (generateDemo c auth s pid cpt))" by (rule coded_generateDemo)
  with GenerateDemo show ?thesis by simp
next
  case (RunScheduled c j)
  show ?thesis
  proof (cases "j \<in> set (scheduled s)")
    case False
    with RunScheduled assms(1) show ?thesis by simp
  next
    case True
    define s0 where "s0 = s\<lparr> scheduled := remove1 j (scheduled s) \<rparr>"
    have sub: "set (scheduled s0) \<subseteq> set (scheduled s)"
      by (simp add: s0_def set_remove1_subset)
    have c0: "coded s0"
    proof (rule coded_mono [OF assms(1)])
      show "demos s0 = demos s" by (simp add: s0_def)
      show "next_id s \<le> next_id s0" by (simp add: s0_def)
      show "\<forall>j. ExecuteInSandbox j \<in> set (scheduled s0) \<longrightarrow> ExecuteInSandbox j \<in> set (scheduled s)"
        using sub by auto
    qed
    show ?thesis
    proof (cases j)
      case (ExtractPdfContent pid)
      from c0 have "coded (snd (extractPdfContent c s0 pid))"
        by (rule coded_mono) (simp_all add: extractPdfContent_frame)
      with RunScheduled True ExtractPdfContent show ?thesis by (simp add: s0_def Let_def)
    next
      case (ExecuteInSandbox did)
      with True assms(1) have "\<forall>d \<in> set (demos s0). d_id d = did \<longrightarrow> generatedCode d \<noteq> []"
        by (auto simp: coded_def s0_def)
      with c0 have "coded (snd (executeInSandbox c s0 did))"
        using executeInSandbox_keeps by (rule coded_keeps)
      with RunScheduled True ExecuteInSandbox show ?thesis by (simp add: s0_def Let_def)
    qed
  qed
qed

lemma coded_run:
  "coded s \<Longrightarrow> \<forall>x \<in> set xs. answers_nonblank x \<Longrightarrow> coded (run xs s)"
  by (induction xs arbitrary: s) (simp_all add: coded_step)

lemma coded_empty: "coded empty_state"
  by (simp add: coded_def empty_state_def)

text \<open>
  C5, as the handlers are written. When the generative model cannot be reached,
  \<open>generateDemo\<close> leaves the demo failed with the empty code it was created with; and
  when the model answers with an empty fenced block, the demo is executing with empty
  code.
\<close>

theorem demos_past_generation_without_code:
  "map_option d_status (getDemoInternal (snd (generateDemo model_down (Some bob) seeded 2 ''softmax'')) 3)
     = Some Failed
   \<and> map_option generatedCode (getDemoInternal (snd (generateDemo model_down (Some bob) seeded 2 ''softmax'')) 3)
     = Some []
   \<and> map_option d_status (getDemoInternal (snd (generateDemo model_blank (Some bob) seeded 2 ''softmax'')) 3)
     = Some Executing
   \<and> map_option generatedCode (getDemoInternal (snd (generateDemo model_blank (Some bob) seeded 2 ''softmax'')) 3)
     = Some []"
  by code_simp

text \<open>
  C5, amended. In every deployment reached from the empty one by calls of
  \<open>ensureUser\<close>, \<open>createPaper\<close> and \<open>generateDemo\<close> and by runs of scheduled
  functions, where every answer of the generative model leaves some code once it is
  trimmed and its fences are removed, every demo that is executing or ready has
  non-empty code. (A demo that failed while its code was generated keeps the empty
  code.)
\<close>

theorem executing_demos_have_code:
  assumes "\<forall>x \<in> set xs. answers_nonblank x"
  shows "\<forall>d \<in> set (demos (run xs empty_state)).
           d_status d = Executing \<or> d_status d = DemoReady \<longrightarrow> generatedCode d \<noteq> []"
  using coded_run [OF coded_empty assms] by (simp add: coded_def)

theorem executing_demos_have_code_witness:
  "list_all answers_nonblank sample_calls
   \<and> map d_status (demos (run sample_calls empty_state)) = [DemoReady]
   \<and> list_all (\<lambda>d. generatedCode d \<noteq> []) (demos (run sample_calls empty_state))"
proof -
  have e: "extract_html fenced_answer \<noteq> []" by code_simp
  then have h: "\<forall>x \<in> set sample_calls. answers_nonblank x"
    by (simp add: sample_calls_def answers_nonblank_def sample_env_def)
  have st: "map d_status (demos (run sample_calls empty_state)) = [DemoReady]" by code_simp
  then have "\<forall>d \<in> set (demos (run sample_calls empty_state)). d_status d = DemoReady"
    by (metis (no_types, lifting) in_set_conv_nth length_map nth_map nth_Cons_0 length_Cons
          list.size(3) less_Suc0)
  with executing_demos_have_code [OF h] h st show ?thesis by (simp add: list_all_iff)
qed

subsection \<open>One user per identity\<close>

text \<open>No function but \<open>ensureUser\<close> writes to the users.\<close>

lemma createPaper_users:
  "case createPaper auth s fname fsid ttl of Inl e \<Rightarrow> True | Inr (pid, s') \<Rightarrow> users s' = users s"
  unfolding createPaper_def and_then_def Let_def
  by (simp split: sum.split)

lemma updateDemo_users: "updateDemo s did a = Inr s' \<Longrightarrow> users s' = users s"
  by (auto simp: updateDemo_def split: if_splits)

lemma updatePaper_users: "updatePaper s pid a = Inr s' \<Longrightarrow> users s' = users s"
  by (auto simp: updatePaper_def split: if_splits)

lemma generateDemo_users: "users (snd (generateDemo c auth s pid cpt)) = users s"
  unfolding generateDemo_def generate_body_def and_then_def createDemo_def Let_def
  by (auto dest!: updateDemo_users split: sum.split option.split)

lemma extract_body_users:
  "case extract_body c s pid of Inl e \<Rightarrow> True | Inr s' \<Rightarrow> users s' = users s"
  unfolding extract_body_def and_then_def
  by (auto dest: updatePaper_users split: option.split sum.split)

lemma extractPdfContent_users: "users (snd (extractPdfContent c s pid)) = users s"
  using extract_body_users [where c = c and s = s and pid = pid]
  unfolding extractPdfContent_def
  by (auto dest: updatePaper_users split: sum.split)

lemma executeInSandbox_users: "users (snd (executeInSandbox c s did)) = users s"
  using executeInSandbox_keeps [where c = c and s = s and did = did] by (simp add: keeps_def)

lemma step_users:
  assumes "\<forall>w. length (users_by_workosId s w) \<le> 1"
  shows "length (users_by_workosId (step x s) w) \<le> 1"
proof (cases x)
  case (EnsureUser auth)
  show ?thesis
  proof (cases "ensureUser auth s")
    case (Inl e)
    with EnsureUser assms show ?thesis by simp
  next
    case (Inr r)
    obtain uid s' where r: "r = (uid, s')" by (cases r)
    from Inr r obtain ident where a: "auth = Some ident"
      by (cases auth) (simp_all add: ensureUser_def)
    from ensureUser_idempotent [OF Inr [unfolded r]] a
    have one: "length (users_by_workosId s' (subject ident)) = 1" by auto
    have "length (users_by_workosId s' w) \<le> 1"
    proof (cases "w = subject ident")
      case True
      with one show ?thesis by simp
    next
      case False
      from Inr r a have "users s' = users s \<or> (\<exists>u. workosId u = subject ident \<and> users s' = users s @ [u])"
        by (cases "unique (users_by_workosId s (subject ident))")
           (auto simp: ensureUser_def Let_def split: option.splits)
      with False have "users_by_workosId s' w = users_by_workosId s w"
        by (auto simp: users_by_workosId_def)
      with assms show ?thesis by simp
    qed
    with EnsureUser Inr r show ?thesis by simp
  qed
next
  case (CreatePaper auth fname fsid ttl)
  with assms createPaper_users [where auth = auth and s = s and fname = fname and fsid = fsid and ttl = ttl]
  show ?thesis by (auto simp: users_by_workosId_def split: sum.splits)
next
  case (GenerateDemo c auth pid cpt)
  with assms show ?thesis by (simp add: users_by_workosId_def generateDemo_users)
next
  case (RunScheduled c j)
  with assms show ?thesis
    by (cases j) (simp_all add: users_by_workosId_def Let_def extractPdfContent_users executeInSandbox_users)
qed

lemma run_users:
  "\<forall>w. length (users_by_workosId s w) \<le> 1 \<Longrightarrow> length (users_by_workosId (run xs s) w) \<le> 1"
proof (induction xs arbitrary: s w)
  case Nil
  then show ?case by simp
next
  case (Cons x xs)
  from Cons.prems have "\<forall>w. length (users_by_workosId (step x s) w) \<le> 1"
    by (blast intro: step_users)
  from Cons.IH [OF this] show ?case by simp
qed

text \<open>
  In every deployment reached from the empty one, at most one row carries a given
  subject: the premise of C8 holds wherever \<open>ensureUser\<close> can be called.
\<close>

lemma one_user_per_identity: "length (users_by_workosId (run xs empty_state) w) \<le> 1"
  by (rule run_users) (simp add: users_by_workosId_def empty_state_def)

end
